theory Spec2Isabelle
  imports Complex_Main
begin

section \<open>Matrices, run-time failures and the spectral dependency\<close>

text \<open>
  An Eigen matrix is the list of its rows; \<open>double\<close> and \<open>float\<close> entries are
  real numbers (rounding is not modelled). The one place of the source where a
  \<open>double\<close> can leave the finite range, the division of the debiasing formula, is
  modelled with the IEEE results written out (type \<open>dbl\<close> below). A matrix without
  rows has no columns in this representation; the source then runs none of its loops
  over the channels. The C++ \<open>int\<close> indices and counts are natural numbers or integers
  without overflow.
\<close>

type_synonym matrixXd = "real list list"
type_synonym matrixXcd = "complex list list"
type_synonym vec3 = "real \<times> real \<times> real"

definition rows :: "'a list list \<Rightarrow> nat" where
  "rows m = length m"

definition cols :: "'a list list \<Rightarrow> nat" where
  "cols m = (case m of [] \<Rightarrow> 0 | r # _ \<Rightarrow> length r)"

text \<open>
  The source has no error channel of its own. What can stop it are the range
  assertion of \<open>QList::at\<close> / \<open>operator[]\<close> and the assertions of Eigen (a row
  index out of range, an assignment between shapes that differ, the mean of an empty
  row). \<open>InvalidTrialCount\<close> is the error the specification names; no path of the
  source produces it.
\<close>

datatype error = QListIndexOutOfRange | EigenAssertion | InvalidTrialCount

definition qAt :: "'a list \<Rightarrow> nat \<Rightarrow> error + 'a" where
  "qAt xs i = (if i < length xs then Inr (xs ! i) else Inl QListIndexOutOfRange)"

definition rowAt :: "'a list list \<Rightarrow> nat \<Rightarrow> error + 'a list" where
  "rowAt m j = (if j < rows m then Inr (m ! j) else Inl EigenAssertion)"

fun mapE :: "('a \<Rightarrow> error + 'b) \<Rightarrow> 'a list \<Rightarrow> error + 'b list" where
  "mapE f [] = Inr []"
| "mapE f (x # xs) =
     (case f x of
        Inl e \<Rightarrow> Inl e
      | Inr y \<Rightarrow> (case mapE f xs of Inl e \<Rightarrow> Inl e | Inr ys \<Rightarrow> Inr (y # ys)))"

fun foldE :: "('a \<Rightarrow> 's \<Rightarrow> error + 's) \<Rightarrow> 'a list \<Rightarrow> 's \<Rightarrow> error + 's" where
  "foldE f [] s = Inr s"
| "foldE f (x # xs) s = (case f x s of Inl e \<Rightarrow> Inl e | Inr s' \<Rightarrow> foldE f xs s')"

text \<open>
  \<open>Spectral::generateTapers\<close>, \<open>Spectral::computeTaperedSpectra\<close> and
  \<open>Spectral::csdFromTaperedSpectra\<close> are called by the source and defined elsewhere;
  they are parameters of the model, collected in one record.
\<close>

record spectral =
  generateTapers :: "nat \<Rightarrow> string \<Rightarrow> matrixXd \<times> real list"
  computeTaperedSpectra :: "real list \<Rightarrow> matrixXd \<Rightarrow> int \<Rightarrow> matrixXcd"
  csdFromTaperedSpectra ::
    "matrixXcd \<Rightarrow> matrixXcd \<Rightarrow> real list \<Rightarrow> real list \<Rightarrow> int \<Rightarrow> real \<Rightarrow> complex list"

section \<open>PhaseLagIndex::computePLI\<close>

definition cwiseSign :: "real \<Rightarrow> real" where
  "cwiseSign x = (if 0 < x then 1 else if x < 0 then - 1 else 0)"

definition imagSign :: "matrixXcd \<Rightarrow> matrixXd" where
  "imagSign m = map (map (\<lambda>z. cwiseSign (Im z))) m"

text \<open>Both operands of the sum are \<open>iNRows \<times> iNFreqs\<close> by construction.\<close>

definition matAdd :: "matrixXd \<Rightarrow> matrixXd \<Rightarrow> matrixXd" where
  "matAdd a b = map2 (map2 (+)) a b"

definition zeroMat :: "nat \<Rightarrow> nat \<Rightarrow> matrixXd" where
  "zeroMat r c = replicate r (replicate c 0)"

definition demean :: "real list \<Rightarrow> real list" where
  "demean r = map (\<lambda>x. x - sum_list r / real (length r)) r"

text \<open>\<open>row.array() -= row.mean()\<close>: Eigen's reduction asserts that the row is not empty.\<close>

definition removeMean :: "real list \<Rightarrow> error + real list" where
  "removeMean r = (if r = [] then Inl EigenAssertion else Inr (demean r))"

text \<open>\<open>matCsd.row(k) = csdFromTaperedSpectra(...)\<close>, a row of \<open>iNFreqs\<close> entries.\<close>

definition csdRow ::
  "spectral \<Rightarrow> matrixXd \<times> real list \<Rightarrow> int \<Rightarrow> nat \<Rightarrow> matrixXcd \<Rightarrow> matrixXcd \<Rightarrow> error + complex list"
where
  "csdRow sp tapers iNfft iNFreqs specJ specK =
     (let v = csdFromTaperedSpectra sp specJ specK (snd tapers) (snd tapers) iNfft 1
      in if length v = iNFreqs then Inr v else Inl EigenAssertion)"

text \<open>The body of the loop over the trials (one epoch).\<close>

definition sumEpoch ::
  "spectral \<Rightarrow> matrixXd \<times> real list \<Rightarrow> int \<Rightarrow> nat \<Rightarrow> nat \<Rightarrow> matrixXd \<Rightarrow> matrixXd list
     \<Rightarrow> error + matrixXd list"
where
  "sumEpoch sp tapers iNfft iNRows iNFreqs trial vecCsdAvg =
     (case mapE removeMean trial of
        Inl e \<Rightarrow> Inl e
      | Inr matInputData \<Rightarrow>
         (case mapE (\<lambda>j. case rowAt matInputData j of
                            Inl e \<Rightarrow> Inl e
                          | Inr r \<Rightarrow> Inr (computeTaperedSpectra sp r (fst tapers) iNfft))
                    [0..<iNRows] of
            Inl e \<Rightarrow> Inl e
          | Inr vecTapSpectra \<Rightarrow>
             foldE (\<lambda>j acc.
                      case mapE (\<lambda>k. csdRow sp tapers iNfft iNFreqs
                                        (vecTapSpectra ! j) (vecTapSpectra ! k))
                                [0..<iNRows] of
                        Inl e \<Rightarrow> Inl e
                      | Inr matCsd \<Rightarrow> Inr (acc[j := matAdd (acc ! j) (imagSign matCsd)]))
                   [0..<iNRows] vecCsdAvg))"

definition computePLI ::
  "spectral \<Rightarrow> matrixXd list \<Rightarrow> int \<Rightarrow> string \<Rightarrow> error + matrixXd list"
where
  "computePLI sp matDataList iNfft0 sWindowType =
     (case qAt matDataList 0 of
        Inl e \<Rightarrow> Inl e
      | Inr first \<Rightarrow>
         (let iSignalLength = cols first;
              iNfft = (if iNfft0 < int iSignalLength then int iSignalLength else iNfft0);
              tapers = generateTapers sp iSignalLength sWindowType;
              iNRows = rows first;
              iNFreqs = nat (iNfft div 2 + 1);
              vecCsdAvg = replicate iNRows (zeroMat iNRows iNFreqs)
          in case foldE (sumEpoch sp tapers iNfft iNRows iNFreqs) matDataList vecCsdAvg of
               Inl e \<Rightarrow> Inl e
             | Inr acc \<Rightarrow>
                 Inr (map (\<lambda>m. map (map (\<lambda>x. \<bar>x\<bar> / real (length matDataList))) m) acc)))"

section \<open>UnbiasedSquaredPhaseLagIndex::computeUnbiasedSquaredPLI\<close>

text \<open>
  A \<open>double\<close> after a division: finite, or one of the IEEE 754 special values. The
  divisor \<open>double(iNTrials - 1)\<close> is never negative, so a zero divisor is \<open>+0.0\<close>.
\<close>

datatype dbl = Finite real | PosInf | NegInf | NaN

definition ddiv :: "real \<Rightarrow> real \<Rightarrow> dbl" where
  "ddiv a b =
     (if b \<noteq> 0 then Finite (a / b)
      else if a = 0 then NaN
      else if 0 < a then PosInf
      else NegInf)"

text \<open>\<open>(double(iNTrials) * x.square() - 1.0) / double(iNTrials - 1)\<close> on one entry.\<close>

fun unbiasedEntry :: "nat \<Rightarrow> dbl \<Rightarrow> dbl" where
  "unbiasedEntry iNTrials (Finite p) =
     ddiv (real iNTrials * p\<^sup>2 - 1) (real_of_int (int iNTrials - 1))"
| "unbiasedEntry iNTrials PosInf = PosInf"
| "unbiasedEntry iNTrials NegInf = PosInf"
| "unbiasedEntry iNTrials NaN = NaN"

definition computeUnbiasedSquaredPLI ::
  "spectral \<Rightarrow> matrixXd list \<Rightarrow> int \<Rightarrow> string \<Rightarrow> error + dbl list list list"
where
  "computeUnbiasedSquaredPLI sp matDataList iNfft sWindowType =
     (case qAt matDataList 0 of
        Inl e \<Rightarrow> Inl e
      | Inr first \<Rightarrow>
         (let iNRows = rows first;
              iNTrials = length matDataList
          in case computePLI sp matDataList iNfft sWindowType of
               Inl e \<Rightarrow> Inl e
             | Inr vecPLI \<Rightarrow>
                 foldE (\<lambda>j v. case qAt v j of
                                 Inl e \<Rightarrow> Inl e
                               | Inr m \<Rightarrow> Inr (v[j := map (map (unbiasedEntry iNTrials)) m]))
                       [0..<iNRows]
                       (map (map (map Finite)) vecPLI)))"

section \<open>Network assembly\<close>

text \<open>
  Modelled from the spec: the classes \<open>Network\<close>, \<open>NetworkNode\<close> and \<open>NetworkEdge\<close> are
  declared outside the given sources (\<open>network/network.h\<close>, \<open>networknode.h\<close>,
  \<open>networkedge.h\<close>). A network is a named graph with an ordered sequence of nodes and a
  flat sequence of edges; a node carries its integer index, its position and the edges
  appended to it (\<open>getNodeAt(i)->append(pEdge)\<close>); an edge connects an ordered pair of
  nodes, kept as their indices in the node sequence, and carries one weight per
  frequency bin. The weights of \<open>phaseLagIndex\<close> are reals, those of
  \<open>unbiasedSquaredPhaseLagIndex\<close> results of a division, so the weight type is a
  parameter.
\<close>

record 'w networkEdge =
  startNode :: nat
  endNode :: nat
  weight :: "'w list"

record 'w networkNode =
  nodeId :: nat
  vert :: vec3
  nodeEdges :: "'w networkEdge list"

record 'w network =
  networkName :: string
  nodes :: "'w networkNode list"
  edges :: "'w networkEdge list"

text \<open>
  The loop that creates the nodes. \<open>rowVert\<close> is declared before the loop and only
  overwritten while \<open>i < matVert.rows()\<close>, so it is part of the loop's state.
\<close>

definition createNode :: "vec3 list \<Rightarrow> nat \<Rightarrow> vec3 \<times> 'w network \<Rightarrow> vec3 \<times> 'w network" where
  "createNode matVert i s =
     (let rowVert = (if length matVert \<noteq> 0 \<and> i < length matVert then matVert ! i else fst s)
      in (rowVert,
          (snd s)\<lparr>nodes := nodes (snd s) @ [\<lparr>nodeId = i, vert = rowVert, nodeEdges = []\<rparr>]\<rparr>))"

definition createNodes :: "vec3 list \<Rightarrow> nat \<Rightarrow> 'w network \<Rightarrow> 'w network" where
  "createNodes matVert n net = snd (fold (createNode matVert) [0..<n] ((0, 0, 0), net))"

text \<open>The body of the inner loop that adds the edges.\<close>

definition addEdge :: "'w list list list \<Rightarrow> nat \<Rightarrow> nat \<Rightarrow> 'w network \<Rightarrow> error + 'w network" where
  "addEdge vec i j net =
     (case qAt vec i of
        Inl e \<Rightarrow> Inl e
      | Inr m \<Rightarrow>
         (case rowAt m j of
            Inl e \<Rightarrow> Inl e
          | Inr matWeight \<Rightarrow>
             (case qAt (nodes net) i of
                Inl e \<Rightarrow> Inl e
              | Inr ni \<Rightarrow>
                 (case qAt (nodes net) j of
                    Inl e \<Rightarrow> Inl e
                  | Inr nj \<Rightarrow>
                     (let pEdge = \<lparr>startNode = i, endNode = j, weight = matWeight\<rparr>
                      in Inr (net\<lparr>nodes := (nodes net)[i := ni\<lparr>nodeEdges := nodeEdges ni @ [pEdge]\<rparr>],
                                  edges := edges net @ [pEdge]\<rparr>))))))"

definition addEdges :: "'w list list list \<Rightarrow> nat \<Rightarrow> 'w network \<Rightarrow> error + 'w network" where
  "addEdges vec n net = foldE (\<lambda>i. foldE (\<lambda>j. addEdge vec i j) [0..<n]) [0..<length vec] net"

definition phaseLagIndex ::
  "spectral \<Rightarrow> matrixXd list \<Rightarrow> vec3 list \<Rightarrow> int \<Rightarrow> string \<Rightarrow> error + real network"
where
  "phaseLagIndex sp matDataList matVert iNfft sWindowType =
     (let finalNetwork = \<lparr>networkName = ''Phase Lag Index'', nodes = [], edges = []\<rparr>
      in if matDataList = [] then Inr finalNetwork
         else
           (let net = createNodes matVert (rows (hd matDataList)) finalNetwork
            in case computePLI sp matDataList iNfft sWindowType of
                 Inl e \<Rightarrow> Inl e
               | Inr vecPLI \<Rightarrow> addEdges vecPLI (rows (hd matDataList)) net))"

definition unbiasedSquaredPhaseLagIndex ::
  "spectral \<Rightarrow> matrixXd list \<Rightarrow> vec3 list \<Rightarrow> int \<Rightarrow> string \<Rightarrow> error + dbl network"
where
  "unbiasedSquaredPhaseLagIndex sp matDataList matVert iNfft sWindowType =
     (let finalNetwork =
            \<lparr>networkName = ''Unbiased Squared Phase Lag Index'', nodes = [], edges = []\<rparr>
      in if matDataList = [] then Inr finalNetwork
         else
           (let net = createNodes matVert (rows (hd matDataList)) finalNetwork
            in case computeUnbiasedSquaredPLI sp matDataList iNfft sWindowType of
                 Inl e \<Rightarrow> Inl e
               | Inr vecUnbiasedSquaredPLI \<Rightarrow>
                   addEdges vecUnbiasedSquaredPLI (rows (hd matDataList)) net))"

section \<open>Intermediate values of the computation\<close>

text \<open>
  Names for values the source builds on the way: the entry \<open>vecTapSpectra.at(j)\<close> of a
  trial, the row \<open>matCsd.row(k)\<close> for the reference channel \<open>j\<close>, the FFT length and
  the tapers in force during the loop over the trials, the number of frequency bins,
  and the sum of signs an accumulator entry holds after the last trial. A trial is
  accepted (\<open>trialOk\<close>) when none of the assertions on the way fails.
\<close>

definition tapSpectrum :: "spectral \<Rightarrow> matrixXd \<times> real list \<Rightarrow> int \<Rightarrow> matrixXd \<Rightarrow> nat \<Rightarrow> matrixXcd" where
  "tapSpectrum sp tapers iNfft trial j =
     computeTaperedSpectra sp (demean (trial ! j)) (fst tapers) iNfft"

definition trialCsd ::
  "spectral \<Rightarrow> matrixXd \<times> real list \<Rightarrow> int \<Rightarrow> matrixXd \<Rightarrow> nat \<Rightarrow> nat \<Rightarrow> complex list"
where
  "trialCsd sp tapers iNfft trial j k =
     csdFromTaperedSpectra sp (tapSpectrum sp tapers iNfft trial j)
       (tapSpectrum sp tapers iNfft trial k) (snd tapers) (snd tapers) iNfft 1"

definition trialOk ::
  "spectral \<Rightarrow> matrixXd \<times> real list \<Rightarrow> int \<Rightarrow> nat \<Rightarrow> nat \<Rightarrow> matrixXd \<Rightarrow> bool"
where
  "trialOk sp tapers iNfft iNRows iNFreqs trial =
     (iNRows \<le> rows trial \<and> list_all (\<lambda>r. r \<noteq> []) trial \<and>
      list_all (\<lambda>j. list_all (\<lambda>k. length (trialCsd sp tapers iNfft trial j k) = iNFreqs)
                          [0..<iNRows]) [0..<iNRows])"

definition tensor :: "nat \<Rightarrow> nat \<Rightarrow> (nat \<Rightarrow> nat \<Rightarrow> nat \<Rightarrow> 'a) \<Rightarrow> 'a list list list" where
  "tensor n m g = map (\<lambda>j. map (\<lambda>k. map (\<lambda>f. g j k f) [0..<m]) [0..<n]) [0..<n]"

definition windowNfft :: "matrixXd list \<Rightarrow> int \<Rightarrow> int" where
  "windowNfft matDataList iNfft0 =
     (if iNfft0 < int (cols (hd matDataList)) then int (cols (hd matDataList)) else iNfft0)"

definition windowTapers :: "spectral \<Rightarrow> matrixXd list \<Rightarrow> string \<Rightarrow> matrixXd \<times> real list" where
  "windowTapers sp matDataList sWindowType =
     generateTapers sp (cols (hd matDataList)) sWindowType"

definition nFreqs :: "matrixXd list \<Rightarrow> int \<Rightarrow> nat" where
  "nFreqs matDataList iNfft0 = nat (windowNfft matDataList iNfft0 div 2 + 1)"

definition wellFormed :: "spectral \<Rightarrow> matrixXd list \<Rightarrow> int \<Rightarrow> string \<Rightarrow> bool" where
  "wellFormed sp matDataList iNfft0 sWindowType =
     (matDataList \<noteq> [] \<and>
      list_all (trialOk sp (windowTapers sp matDataList sWindowType)
                  (windowNfft matDataList iNfft0) (rows (hd matDataList))
                  (nFreqs matDataList iNfft0)) matDataList)"

definition signSum ::
  "spectral \<Rightarrow> matrixXd list \<Rightarrow> int \<Rightarrow> string \<Rightarrow> nat \<Rightarrow> nat \<Rightarrow> nat \<Rightarrow> real" where
  "signSum sp matDataList iNfft0 sWindowType i k f =
     (\<Sum>t<length matDataList.
        cwiseSign (Im (trialCsd sp (windowTapers sp matDataList sWindowType)
                         (windowNfft matDataList iNfft0) (matDataList ! t) i k ! f)))"

text \<open>The position a node receives and the edge added for the pair \<open>(i, j)\<close>.\<close>

definition rowVertAt :: "vec3 list \<Rightarrow> nat \<Rightarrow> vec3" where
  "rowVertAt matVert i =
     (if matVert = [] then (0, 0, 0) else if i < length matVert then matVert ! i else last matVert)"

definition edgeOf :: "'w list list list \<Rightarrow> nat \<Rightarrow> nat \<Rightarrow> 'w networkEdge" where
  "edgeOf vec i j = \<lparr>startNode = i, endNode = j, weight = vec ! i ! j\<rparr>"

definition endpoints :: "'w networkEdge \<Rightarrow> nat \<times> nat" where
  "endpoints e = (startNode e, endNode e)"

text \<open>What is left of a network without its name and its weights.\<close>

definition graphStructure ::
  "'w network \<Rightarrow> (nat \<times> vec3 \<times> (nat \<times> nat) list) list \<times> (nat \<times> nat) list"
where
  "graphStructure net =
     (map (\<lambda>n. (nodeId n, vert n, map endpoints (nodeEdges n))) (nodes net),
      map endpoints (edges net))"

text \<open>
  The contract of the CSD combiner used for the symmetry of the index: with the same
  taper weights on both sides, swapping the two spectra conjugates the result.
\<close>

definition csdConjugates :: "spectral \<Rightarrow> bool" where
  "csdConjugates sp =
     (\<forall>a b w n s. csdFromTaperedSpectra sp a b w w n s =
                    map cnj (csdFromTaperedSpectra sp b a w w n s))"

text \<open>The network both wrappers build from a tensor \<open>vec\<close> of \<open>n\<close> matrices with \<open>n\<close> rows.\<close>

definition assembled :: "string \<Rightarrow> vec3 list \<Rightarrow> nat \<Rightarrow> 'w list list list \<Rightarrow> 'w network" where
  "assembled nm mv n vec =
     \<lparr>networkName = nm,
      nodes = map (\<lambda>i. \<lparr>nodeId = i, vert = rowVertAt mv i,
                         nodeEdges = map (edgeOf vec i) [0..<n]\<rparr>) [0..<n],
      edges = concat (map (\<lambda>i. map (edgeOf vec i) [0..<n]) [0..<n])\<rparr>"

section \<open>An instance of the spectral dependency\<close>

text \<open>
  Inputs for concrete runs (they stand for no part of the source): a library with a
  boxcar window (one taper of ones with weight one), the first three bins of the
  Fourier sum with the twiddle factors of period four (the one-sided four-point
  transform when the tapered row has four entries), and the cross-spectrum as the sum
  over the tapers of \<open>x * cnj y\<close>; and three trials of two channels, the third with
  eight samples instead of four. \<open>checkedSpectra4\<close> is the same transform behind an
  input check: it answers with the empty matrix when the taper length is not the
  length of the row or the FFT length is smaller than the row.
\<close>

definition boxcarTapers :: "nat \<Rightarrow> string \<Rightarrow> matrixXd \<times> real list" where
  "boxcarTapers n w = ([replicate n 1], [1])"

definition twiddle4 :: "nat \<Rightarrow> complex" where
  "twiddle4 k = [1, - \<i>, - 1, \<i>] ! (k mod 4)"

definition dft4 :: "real list \<Rightarrow> complex list" where
  "dft4 xs = map (\<lambda>f. \<Sum>n\<leftarrow>[0..<length xs]. complex_of_real (xs ! n) * twiddle4 (f * n)) [0..<3]"

definition spectra4 :: "real list \<Rightarrow> matrixXd \<Rightarrow> int \<Rightarrow> matrixXcd" where
  "spectra4 row tapers iNfft = map (\<lambda>tp. dft4 (map2 (*) row tp)) tapers"

definition checkedSpectra4 :: "real list \<Rightarrow> matrixXd \<Rightarrow> int \<Rightarrow> matrixXcd" where
  "checkedSpectra4 row tapers iNfft =
     (if length row = cols tapers \<and> int (length row) \<le> iNfft then spectra4 row tapers iNfft else [])"

definition nthOr0 :: "complex list \<Rightarrow> nat \<Rightarrow> complex" where
  "nthOr0 r f = (if f < length r then r ! f else 0)"

definition csdConj :: "matrixXcd \<Rightarrow> matrixXcd \<Rightarrow> real list \<Rightarrow> real list \<Rightarrow> int \<Rightarrow> real \<Rightarrow> complex list" where
  "csdConj a b w1 w2 iNfft s =
     map (\<lambda>f. \<Sum>r\<leftarrow>map2 (map2 (\<lambda>x y. x * cnj y)) a b. nthOr0 r f) [0..<nat (iNfft div 2 + 1)]"

definition dft4Spectral :: spectral where
  "dft4Spectral = \<lparr>generateTapers = boxcarTapers, computeTaperedSpectra = spectra4,
                    csdFromTaperedSpectra = csdConj\<rparr>"

definition checkedSpectral :: spectral where
  "checkedSpectral = \<lparr>generateTapers = boxcarTapers, computeTaperedSpectra = checkedSpectra4,
                    csdFromTaperedSpectra = csdConj\<rparr>"

definition trialA :: matrixXd where "trialA = [[1, 0, -1, 0], [0, 1, 0, -1]]"
definition trialC :: matrixXd where "trialC = [[2, 1, 0, 1], [1, 2, 1, 0]]"
definition trialLong :: matrixXd where "trialLong = [[1, 0, -1, 0, 0, 0, 0, 0], [0, 1, 0, -1, 0, 0, 0, 0]]"

text \<open>
  \<open>nfft4Spectral\<close> answers like \<open>dft4Spectral\<close> when it is called with the FFT length 4
  and with empty results for every other FFT length.
\<close>

definition nfft4Spectral :: spectral where
  "nfft4Spectral =
     \<lparr>generateTapers = boxcarTapers,
      computeTaperedSpectra = (\<lambda>row tapers iNfft. if iNfft = 4 then spectra4 row tapers iNfft else []),
      csdFromTaperedSpectra = (\<lambda>a b w1 w2 iNfft s. if iNfft = 4 then csdConj a b w1 w2 iNfft s else [])\<rparr>"

section \<open>Sequencing of fallible steps\<close>

lemma mapE_ok:
  "list_all (\<lambda>x. \<not> isl (f x)) xs \<Longrightarrow> mapE f xs = Inr (map (\<lambda>x. projr (f x)) xs)"
  by (induction xs) (auto split: sum.splits)

lemma mapE_InrD:
  "mapE f xs = Inr ys \<Longrightarrow> list_all (\<lambda>x. \<not> isl (f x)) xs \<and> ys = map (\<lambda>x. projr (f x)) xs"
  by (induction xs arbitrary: ys) (auto split: sum.splits)

lemma mapE_Inr_iff:
  "mapE f xs = Inr ys \<longleftrightarrow> list_all (\<lambda>x. \<not> isl (f x)) xs \<and> ys = map (\<lambda>x. projr (f x)) xs"
  using mapE_ok mapE_InrD by blast

lemma foldE_append:
  "foldE f (xs @ ys) s = (case foldE f xs s of Inl e \<Rightarrow> Inl e | Inr s' \<Rightarrow> foldE f ys s')"
  by (induction xs arbitrary: s) (auto split: sum.splits)

lemma foldE_update_upt:
  assumes "n \<le> length acc"
  shows "foldE (\<lambda>j a. case g j of Inl e \<Rightarrow> Inl e | Inr v \<Rightarrow> Inr (a[j := h j (a ! j) v])) [0..<n] acc = Inr acc'
     \<longleftrightarrow> list_all (\<lambda>j. \<not> isl (g j)) [0..<n]
         \<and> acc' = map (\<lambda>j. if j < n then h j (acc ! j) (projr (g j)) else acc ! j) [0..<length acc]"
  using assms
proof (induction n arbitrary: acc')
  case 0
  then show ?case by (auto simp: map_nth)
next
  case (Suc n)
  let ?f = "\<lambda>j a. case g j of Inl e \<Rightarrow> Inl e | Inr v \<Rightarrow> Inr (a[j := h j (a ! j) v])"
  let ?mid = "map (\<lambda>j. if j < n then h j (acc ! j) (projr (g j)) else acc ! j) [0..<length acc]"
  have n: "n \<le> length acc" "n < length acc" using Suc.prems by auto
  have IH: "\<And>a. foldE ?f [0..<n] acc = Inr a \<longleftrightarrow> list_all (\<lambda>j. \<not> isl (g j)) [0..<n] \<and> a = ?mid"
    using Suc.IH[OF n(1)] by blast
  have upd: "?mid[n := h n (?mid ! n) v] = map (\<lambda>j. if j < Suc n then h j (acc ! j) (projr (g j)) else acc ! j) [0..<length acc]"
    if "g n = Inr v" for v
  proof (rule nth_equalityI)
    show "length (?mid[n := h n (?mid ! n) v]) = length (map (\<lambda>j. if j < Suc n then h j (acc ! j) (projr (g j)) else acc ! j) [0..<length acc])"
      by simp
  next
    fix i assume "i < length (?mid[n := h n (?mid ! n) v])"
    then have i: "i < length acc" by simp
    show "?mid[n := h n (?mid ! n) v] ! i = map (\<lambda>j. if j < Suc n then h j (acc ! j) (projr (g j)) else acc ! j) [0..<length acc] ! i"
    proof (cases "i = n")
      case True
      then show ?thesis using i that by simp
    next
      case False
      then show ?thesis using i by (simp add: less_Suc_eq)
    qed
  qed
  show ?case
  proof (cases "foldE ?f [0..<n] acc")
    case (Inl e)
    then show ?thesis using IH by (auto simp: foldE_append)
  next
    case (Inr a)
    then have a: "list_all (\<lambda>j. \<not> isl (g j)) [0..<n]" "a = ?mid" using IH by auto
    show ?thesis
      using Inr a upd by (cases "g n") (auto simp: foldE_append)
  qed
qed

lemma bindE_Inr_iff:
  "(case r of Inl e \<Rightarrow> Inl e | Inr x \<Rightarrow> F x) = Inr y \<longleftrightarrow> (\<exists>x. r = Inr x \<and> F x = Inr y)"
  by (cases r) auto

lemma removeMean_all:
  "mapE removeMean trial = Inr m \<longleftrightarrow> list_all (\<lambda>r. r \<noteq> []) trial \<and> m = map demean trial"
proof -
  have a: "list_all (\<lambda>x. \<not> isl (removeMean x)) trial = list_all (\<lambda>r. r \<noteq> []) trial"
    by (simp add: removeMean_def list_all_iff)
  have b: "list_all (\<lambda>r. r \<noteq> []) trial \<Longrightarrow> map (\<lambda>x. projr (removeMean x)) trial = map demean trial"
    by (simp add: removeMean_def list_all_iff)
  show ?thesis unfolding mapE_Inr_iff a using b by auto
qed

lemma tapSpectra_all:
  "mapE (\<lambda>j. case rowAt (map demean trial) j of Inl e \<Rightarrow> Inl e
               | Inr r \<Rightarrow> Inr (computeTaperedSpectra sp r (fst tapers) iNfft)) [0..<n] = Inr v
   \<longleftrightarrow> n \<le> rows trial \<and> v = map (tapSpectrum sp tapers iNfft trial) [0..<n]"
proof -
  let ?f = "\<lambda>j. case rowAt (map demean trial) j of Inl e \<Rightarrow> Inl e
               | Inr r \<Rightarrow> Inr (computeTaperedSpectra sp r (fst tapers) iNfft)"
  have f: "?f j = (if j < rows trial then Inr (tapSpectrum sp tapers iNfft trial j) else Inl EigenAssertion)" for j
    by (simp add: rowAt_def rows_def tapSpectrum_def)
  have a: "list_all (\<lambda>j. \<not> isl (?f j)) [0..<n] \<longleftrightarrow> n \<le> rows trial"
    unfolding f by (cases n) (auto simp: list_all_iff)
  have b: "n \<le> rows trial \<Longrightarrow> map (\<lambda>j. projr (?f j)) [0..<n] = map (tapSpectrum sp tapers iNfft trial) [0..<n]"
    unfolding f by simp
  show ?thesis unfolding mapE_Inr_iff a using b by auto
qed

lemma csdRows_all:
  assumes "j < n"
  shows "mapE (\<lambda>k. csdRow sp tapers iNfft F (map (tapSpectrum sp tapers iNfft trial) [0..<n] ! j)
                     (map (tapSpectrum sp tapers iNfft trial) [0..<n] ! k)) [0..<n] = Inr m
   \<longleftrightarrow> list_all (\<lambda>k. length (trialCsd sp tapers iNfft trial j k) = F) [0..<n]
       \<and> m = map (trialCsd sp tapers iNfft trial j) [0..<n]"
proof -
  let ?f = "\<lambda>k. csdRow sp tapers iNfft F (map (tapSpectrum sp tapers iNfft trial) [0..<n] ! j)
                     (map (tapSpectrum sp tapers iNfft trial) [0..<n] ! k)"
  have f: "?f k = (if length (trialCsd sp tapers iNfft trial j k) = F
                   then Inr (trialCsd sp tapers iNfft trial j k) else Inl EigenAssertion)" if "k < n" for k
    using assms that by (simp add: csdRow_def trialCsd_def Let_def)
  have a: "list_all (\<lambda>k. \<not> isl (?f k)) [0..<n] \<longleftrightarrow> list_all (\<lambda>k. length (trialCsd sp tapers iNfft trial j k) = F) [0..<n]"
    using f by (auto simp: list_all_iff)
  have b: "list_all (\<lambda>k. length (trialCsd sp tapers iNfft trial j k) = F) [0..<n] \<Longrightarrow>
     map (\<lambda>k. projr (?f k)) [0..<n] = map (trialCsd sp tapers iNfft trial j) [0..<n]"
    using f by (auto simp: list_all_iff)
  show ?thesis unfolding mapE_Inr_iff a using b by auto
qed

lemma isl_csdRows:
  assumes "j < n"
  shows "\<not> isl (mapE (\<lambda>k. csdRow sp tapers iNfft F (map (tapSpectrum sp tapers iNfft trial) [0..<n] ! j)
                     (map (tapSpectrum sp tapers iNfft trial) [0..<n] ! k)) [0..<n])
     \<longleftrightarrow> list_all (\<lambda>k. length (trialCsd sp tapers iNfft trial j k) = F) [0..<n]"
    (is "\<not> isl ?r \<longleftrightarrow> ?ok")
proof
  assume "\<not> isl ?r"
  then obtain m where "?r = Inr m" by (cases ?r) auto
  then show ?ok using csdRows_all[OF assms] by blast
next
  assume ?ok
  then have "?r = Inr (map (trialCsd sp tapers iNfft trial j) [0..<n])"
    using csdRows_all[OF assms] by blast
  then show "\<not> isl ?r" by simp
qed

lemma projr_csdRows:
  assumes "j < n" "list_all (\<lambda>k. length (trialCsd sp tapers iNfft trial j k) = F) [0..<n]"
  shows "projr (mapE (\<lambda>k. csdRow sp tapers iNfft F (map (tapSpectrum sp tapers iNfft trial) [0..<n] ! j)
                     (map (tapSpectrum sp tapers iNfft trial) [0..<n] ! k)) [0..<n])
     = map (trialCsd sp tapers iNfft trial j) [0..<n]"
proof -
  have "mapE (\<lambda>k. csdRow sp tapers iNfft F (map (tapSpectrum sp tapers iNfft trial) [0..<n] ! j)
                     (map (tapSpectrum sp tapers iNfft trial) [0..<n] ! k)) [0..<n]
        = Inr (map (trialCsd sp tapers iNfft trial j) [0..<n])"
    using csdRows_all[OF assms(1)] assms(2) by blast
  then show ?thesis by simp
qed

lemma sumEpoch_iff:
  assumes "length acc = n"
  shows "sumEpoch sp tapers iNfft n F trial acc = Inr acc' \<longleftrightarrow>
           trialOk sp tapers iNfft n F trial \<and>
           acc' = map (\<lambda>j. matAdd (acc ! j) (imagSign (map (trialCsd sp tapers iNfft trial j) [0..<n])))
                      [0..<n]"
proof -
  let ?v = "map (tapSpectrum sp tapers iNfft trial) [0..<n]"
  let ?g = "\<lambda>j. mapE (\<lambda>k. csdRow sp tapers iNfft F (?v ! j) (?v ! k)) [0..<n]"
  let ?loop = "foldE (\<lambda>j a. case ?g j of Inl e \<Rightarrow> Inl e
                 | Inr matCsd \<Rightarrow> Inr (a[j := matAdd (a ! j) (imagSign matCsd)])) [0..<n] acc"
  let ?okc = "list_all (\<lambda>j. list_all (\<lambda>k. length (trialCsd sp tapers iNfft trial j k) = F) [0..<n]) [0..<n]"
  have unfold: "sumEpoch sp tapers iNfft n F trial acc = Inr acc' \<longleftrightarrow>
      list_all (\<lambda>r. r \<noteq> []) trial \<and> n \<le> rows trial \<and> ?loop = Inr acc'"
  proof -
    have "sumEpoch sp tapers iNfft n F trial acc = Inr acc' \<longleftrightarrow>
        list_all (\<lambda>r. r \<noteq> []) trial \<and>
        (case mapE (\<lambda>j. case rowAt (map demean trial) j of Inl e \<Rightarrow> Inl e
                   | Inr r \<Rightarrow> Inr (computeTaperedSpectra sp r (fst tapers) iNfft)) [0..<n] of
           Inl e \<Rightarrow> Inl e
         | Inr vecTapSpectra \<Rightarrow>
             foldE (\<lambda>j a. case mapE (\<lambda>k. csdRow sp tapers iNfft F (vecTapSpectra ! j) (vecTapSpectra ! k)) [0..<n] of
                       Inl e \<Rightarrow> Inl e
                     | Inr matCsd \<Rightarrow> Inr (a[j := matAdd (a ! j) (imagSign matCsd)])) [0..<n] acc) = Inr acc'"
      unfolding sumEpoch_def bindE_Inr_iff[where r = "mapE removeMean trial"] removeMean_all by auto
    also have "\<dots> \<longleftrightarrow> list_all (\<lambda>r. r \<noteq> []) trial \<and> n \<le> rows trial \<and> ?loop = Inr acc'"
      unfolding bindE_Inr_iff tapSpectra_all by auto
    finally show ?thesis .
  qed
  have ok: "list_all (\<lambda>j. \<not> isl (?g j)) [0..<n] \<longleftrightarrow> ?okc"
    using isl_csdRows[where n = n] by (simp add: list_all_iff)
  have res: "map (\<lambda>j. if j < n then matAdd (acc ! j) (imagSign (projr (?g j))) else acc ! j) [0..<length acc]
        = map (\<lambda>j. matAdd (acc ! j) (imagSign (map (trialCsd sp tapers iNfft trial j) [0..<n]))) [0..<n]"
    if ?okc
    using that assms projr_csdRows[where n = n and F = F] by (simp add: list_all_iff)
  have loop: "?loop = Inr acc' \<longleftrightarrow> ?okc \<and>
      acc' = map (\<lambda>j. matAdd (acc ! j) (imagSign (map (trialCsd sp tapers iNfft trial j) [0..<n]))) [0..<n]"
    using foldE_update_upt[where g = ?g and h = "\<lambda>j a v. matAdd a (imagSign v)" and n = n and acc = acc and acc' = acc']
      assms ok res by auto
  show ?thesis unfolding unfold loop trialOk_def by auto
qed

lemma epoch_tensor:
  assumes "list_all (\<lambda>j. list_all (\<lambda>k. length (trialCsd sp tapers iNfft trial j k) = F) [0..<n]) [0..<n]"
  shows "map (\<lambda>j. matAdd (tensor n F a ! j) (imagSign (map (trialCsd sp tapers iNfft trial j) [0..<n]))) [0..<n]
         = tensor n F (\<lambda>j k f. a j k f + cwiseSign (Im (trialCsd sp tapers iNfft trial j k ! f)))"
proof -
  have len: "length (trialCsd sp tapers iNfft trial j k) = F" if "j < n" "k < n" for j k
    using assms that by (simp add: list_all_iff)
  have row: "map2 (+) (map (a j k) [0..<F]) (map (\<lambda>z. cwiseSign (Im z)) (trialCsd sp tapers iNfft trial j k))
           = map (\<lambda>f. a j k f + cwiseSign (Im (trialCsd sp tapers iNfft trial j k ! f))) [0..<F]"
    if "j < n" "k < n" for j k
    using len[OF that] by (intro nth_equalityI) auto
  have mat: "matAdd (tensor n F a ! j) (imagSign (map (trialCsd sp tapers iNfft trial j) [0..<n]))
           = map (\<lambda>k. map (\<lambda>f. a j k f + cwiseSign (Im (trialCsd sp tapers iNfft trial j k ! f))) [0..<F]) [0..<n]"
    if "j < n" for j
    using that row[OF that] by (intro nth_equalityI) (auto simp: matAdd_def imagSign_def tensor_def)
  show ?thesis
    unfolding tensor_def[of n F "\<lambda>j k f. a j k f + cwiseSign (Im (trialCsd sp tapers iNfft trial j k ! f))"]
    using mat by simp
qed

lemma length_tensor: "length (tensor n F a) = n"
  by (simp add: tensor_def)

lemma sumOverEpochs_iff:
  "foldE (sumEpoch sp tapers iNfft n F) ts (tensor n F a) = Inr acc' \<longleftrightarrow>
     list_all (trialOk sp tapers iNfft n F) ts \<and>
     acc' = tensor n F (\<lambda>j k f. a j k f +
              (\<Sum>t\<leftarrow>ts. cwiseSign (Im (trialCsd sp tapers iNfft t j k ! f))))"
proof (induction ts arbitrary: a)
  case Nil
  show ?case by auto
next
  case (Cons t ts)
  let ?a' = "\<lambda>j k f. a j k f + cwiseSign (Im (trialCsd sp tapers iNfft t j k ! f))"
  have step: "sumEpoch sp tapers iNfft n F t (tensor n F a) = Inr x \<longleftrightarrow>
      trialOk sp tapers iNfft n F t \<and> x = tensor n F ?a'" for x
    using sumEpoch_iff[where acc = "tensor n F a" and sp = sp and tapers = tapers and iNfft = iNfft
          and F = F and trial = t and acc' = x and n = n] length_tensor[of n F a]
      epoch_tensor[where sp = sp and tapers = tapers and iNfft = iNfft and trial = t and F = F
          and n = n and a = a]
    by (auto simp: trialOk_def)
  have "foldE (sumEpoch sp tapers iNfft n F) (t # ts) (tensor n F a) = Inr acc' \<longleftrightarrow>
      trialOk sp tapers iNfft n F t \<and> foldE (sumEpoch sp tapers iNfft n F) ts (tensor n F ?a') = Inr acc'"
    using step by (simp add: bindE_Inr_iff)
  then show ?case
    unfolding Cons.IH by (simp add: add.assoc)
qed

lemma computePLI_iff:
  "computePLI sp ds iNfft0 w = Inr pli \<longleftrightarrow>
     wellFormed sp ds iNfft0 w \<and>
     pli = tensor (rows (hd ds)) (nFreqs ds iNfft0)
             (\<lambda>i k f. \<bar>signSum sp ds iNfft0 w i k f\<bar> / real (length ds))"
proof (cases ds)
  case Nil
  then show ?thesis by (simp add: computePLI_def qAt_def wellFormed_def)
next
  case (Cons first rest)
  let ?n = "rows first"
  let ?nfft = "windowNfft ds iNfft0"
  let ?F = "nFreqs ds iNfft0"
  let ?tapers = "windowTapers sp ds w"
  let ?s = "\<lambda>j k f. (\<Sum>t\<leftarrow>ds. cwiseSign (Im (trialCsd sp ?tapers ?nfft t j k ! f)))"
  have zero: "replicate ?n (zeroMat ?n ?F) = tensor ?n ?F (\<lambda>j k f. 0)"
    by (simp add: zeroMat_def tensor_def map_replicate_const)
  have sums: "?s j k f = signSum sp ds iNfft0 w j k f" for j k f
    unfolding signSum_def by (simp add: sum_list_sum_nth atLeast0LessThan)
  have fin: "map (\<lambda>m. map (map (\<lambda>x. \<bar>x\<bar> / real (length ds))) m) (tensor ?n ?F g)
        = tensor ?n ?F (\<lambda>j k f. \<bar>g j k f\<bar> / real (length ds))" for g
    by (simp add: tensor_def comp_def)
  have "computePLI sp ds iNfft0 w = Inr pli \<longleftrightarrow>
      (\<exists>acc. foldE (sumEpoch sp ?tapers ?nfft ?n ?F) ds (tensor ?n ?F (\<lambda>j k f. 0)) = Inr acc \<and>
         pli = map (\<lambda>m. map (map (\<lambda>x. \<bar>x\<bar> / real (length ds))) m) acc)"
    using Cons zero
    by (auto simp: computePLI_def qAt_def Let_def windowNfft_def windowTapers_def nFreqs_def bindE_Inr_iff)
  also have "\<dots> \<longleftrightarrow> list_all (trialOk sp ?tapers ?nfft ?n ?F) ds \<and>
      pli = tensor ?n ?F (\<lambda>j k f. \<bar>?s j k f\<bar> / real (length ds))"
    unfolding sumOverEpochs_iff by (simp add: fin)
  finally show ?thesis
    using Cons unfolding sums by (simp add: wellFormed_def)
qed

section \<open>The node and edge loops\<close>

lemma fold_createNode:
  "fold (createNode mv) [0..<n] ((0, 0, 0), net) =
     (if n = 0 then (0, 0, 0) else rowVertAt mv (n - 1),
      net\<lparr>nodes := nodes net @ map (\<lambda>i. \<lparr>nodeId = i, vert = rowVertAt mv i, nodeEdges = []\<rparr>) [0..<n]\<rparr>)"
proof (induction n)
  case 0
  show ?case by simp
next
  case (Suc n)
  have pos: "(if length mv \<noteq> 0 \<and> n < length mv then mv ! n
              else (if n = 0 then (0, 0, 0) else rowVertAt mv (n - 1))) = rowVertAt mv n"
  proof (cases "mv = [] \<or> n = 0")
    case True
    then show ?thesis by (auto simp: rowVertAt_def)
  next
    case False
    then have mv: "mv \<noteq> []" and n: "0 < n" by auto
    show ?thesis
    proof (cases "n < length mv")
      case True
      then show ?thesis using mv by (simp add: rowVertAt_def)
    next
      case False
      have "rowVertAt mv (n - 1) = last mv"
      proof (cases "n - 1 < length mv")
        case True
        with False n have "n - 1 = length mv - 1" by arith
        then show ?thesis using mv True by (simp add: rowVertAt_def last_conv_nth)
      next
        case False
        then show ?thesis using mv by (simp add: rowVertAt_def)
      qed
      then show ?thesis using False mv n by (simp add: rowVertAt_def)
    qed
  qed
  have "fold (createNode mv) [0..<Suc n] ((0, 0, 0), net) =
        createNode mv n (fold (createNode mv) [0..<n] ((0, 0, 0), net))"
    by simp
  also have "\<dots> = createNode mv n (if n = 0 then (0, 0, 0) else rowVertAt mv (n - 1),
      net\<lparr>nodes := nodes net @ map (\<lambda>i. \<lparr>nodeId = i, vert = rowVertAt mv i, nodeEdges = []\<rparr>) [0..<n]\<rparr>)"
    by (simp only: Suc.IH)
  also have "\<dots> = (rowVertAt mv n,
      net\<lparr>nodes := nodes net @ map (\<lambda>i. \<lparr>nodeId = i, vert = rowVertAt mv i, nodeEdges = []\<rparr>) [0..<Suc n]\<rparr>)"
    unfolding createNode_def Let_def fst_conv snd_conv pos by simp
  finally show ?case by simp
qed

lemma createNodes_closed:
  "createNodes mv n \<lparr>networkName = nm, nodes = [], edges = []\<rparr> =
     \<lparr>networkName = nm,
      nodes = map (\<lambda>i. \<lparr>nodeId = i, vert = rowVertAt mv i, nodeEdges = []\<rparr>) [0..<n],
      edges = []\<rparr>"
  by (simp add: createNodes_def fold_createNode)

lemma addEdge_ok:
  assumes "i < length vec" "j < rows (vec ! i)" "i < length (nodes net)" "j < length (nodes net)"
  shows "addEdge vec i j net =
     Inr (net\<lparr>nodes := (nodes net)[i := (nodes net ! i)\<lparr>nodeEdges := nodeEdges (nodes net ! i) @ [edgeOf vec i j]\<rparr>],
              edges := edges net @ [edgeOf vec i j]\<rparr>)"
  using assms by (simp add: addEdge_def qAt_def rowAt_def edgeOf_def Let_def)

lemma inner_edges:
  assumes "i < length vec" "n \<le> rows (vec ! i)" "i < length (nodes net)" "n \<le> length (nodes net)"
  shows "foldE (\<lambda>j. addEdge vec i j) [0..<n] net =
     Inr (net\<lparr>nodes := (nodes net)[i := (nodes net ! i)\<lparr>nodeEdges := nodeEdges (nodes net ! i) @ map (edgeOf vec i) [0..<n]\<rparr>],
              edges := edges net @ map (edgeOf vec i) [0..<n]\<rparr>)"
  using assms
proof (induction n)
  case 0
  then show ?case by simp
next
  case (Suc n)
  then show ?case
    by (simp add: foldE_append addEdge_ok)
qed

lemma outer_edges:
  assumes "m \<le> n" "n \<le> length vec" "\<And>i. i < n \<Longrightarrow> n \<le> rows (vec ! i)"
  shows "foldE (\<lambda>i. foldE (\<lambda>j. addEdge vec i j) [0..<n]) [0..<m]
           \<lparr>networkName = nm,
            nodes = map (\<lambda>i. \<lparr>nodeId = i, vert = p i, nodeEdges = []\<rparr>) [0..<n],
            edges = []\<rparr> =
         Inr \<lparr>networkName = nm,
              nodes = map (\<lambda>i. \<lparr>nodeId = i, vert = p i,
                                 nodeEdges = (if i < m then map (edgeOf vec i) [0..<n] else [])\<rparr>) [0..<n],
              edges = concat (map (\<lambda>i. map (edgeOf vec i) [0..<n]) [0..<m])\<rparr>"
  using assms(1)
proof (induction m)
  case 0
  show ?case by simp
next
  case (Suc m)
  let ?nodes = "\<lambda>m. map (\<lambda>i. \<lparr>nodeId = i, vert = p i,
                                 nodeEdges = (if i < m then map (edgeOf vec i) [0..<n] else [])\<rparr>) [0..<n]"
  let ?net = "\<lambda>m. \<lparr>networkName = nm, nodes = ?nodes m,
              edges = concat (map (\<lambda>i. map (edgeOf vec i) [0..<n]) [0..<m])\<rparr>"
  have m: "m < n" "m \<le> n" using Suc.prems by auto
  have upd: "(?nodes m)[m := (?nodes m ! m)\<lparr>nodeEdges := nodeEdges (?nodes m ! m) @ map (edgeOf vec m) [0..<n]\<rparr>]
             = ?nodes (Suc m)"
  proof (rule nth_equalityI)
    show "length ((?nodes m)[m := (?nodes m ! m)\<lparr>nodeEdges := nodeEdges (?nodes m ! m) @ map (edgeOf vec m) [0..<n]\<rparr>])
          = length (?nodes (Suc m))" by simp
  next
    fix i assume "i < length ((?nodes m)[m := (?nodes m ! m)\<lparr>nodeEdges := nodeEdges (?nodes m ! m) @ map (edgeOf vec m) [0..<n]\<rparr>])"
    then have i: "i < n" by simp
    show "(?nodes m)[m := (?nodes m ! m)\<lparr>nodeEdges := nodeEdges (?nodes m ! m) @ map (edgeOf vec m) [0..<n]\<rparr>] ! i
          = ?nodes (Suc m) ! i"
    proof (cases "i = m")
      case True
      then show ?thesis using m by simp
    next
      case False
      then show ?thesis using i by (simp add: less_Suc_eq)
    qed
  qed
  have inner: "foldE (\<lambda>j. addEdge vec m j) [0..<n] (?net m) =
      Inr ((?net m)\<lparr>nodes := (nodes (?net m))[m := (nodes (?net m) ! m)\<lparr>nodeEdges := nodeEdges (nodes (?net m) ! m) @ map (edgeOf vec m) [0..<n]\<rparr>],
              edges := edges (?net m) @ map (edgeOf vec m) [0..<n]\<rparr>)"
    using m assms(2) assms(3)[OF m(1)] by (intro inner_edges) auto
  have step: "foldE (\<lambda>j. addEdge vec m j) [0..<n] (?net m) = Inr (?net (Suc m))"
    unfolding inner using upd by simp
  show ?case
    using Suc.IH[OF m(2)] step by (simp add: foldE_append)
qed

lemma assemble_closed:
  assumes "length vec = n" "\<And>i. i < n \<Longrightarrow> rows (vec ! i) = n"
  shows "addEdges vec n (createNodes mv n \<lparr>networkName = nm, nodes = [], edges = []\<rparr>) =
     Inr \<lparr>networkName = nm,
          nodes = map (\<lambda>i. \<lparr>nodeId = i, vert = rowVertAt mv i,
                             nodeEdges = map (edgeOf vec i) [0..<n]\<rparr>) [0..<n],
          edges = concat (map (\<lambda>i. map (edgeOf vec i) [0..<n]) [0..<n])\<rparr>"
proof -
  have "addEdges vec n (createNodes mv n \<lparr>networkName = nm, nodes = [], edges = []\<rparr>) =
     Inr \<lparr>networkName = nm,
          nodes = map (\<lambda>i. \<lparr>nodeId = i, vert = rowVertAt mv i,
                             nodeEdges = (if i < n then map (edgeOf vec i) [0..<n] else [])\<rparr>) [0..<n],
          edges = concat (map (\<lambda>i. map (edgeOf vec i) [0..<n]) [0..<n])\<rparr>"
    unfolding addEdges_def createNodes_closed assms(1)
    using assms by (intro outer_edges) auto
  then show ?thesis by simp
qed

section \<open>Running the instance\<close>

lemma upt2: "[0..<2] = [0, 1]" by (simp add: upt_rec)
lemma upt3: "[0..<3] = [0, 1, 2]" by (simp add: upt_rec)
lemma upt4: "[0..<4] = [0, 1, 2, 3]" by (simp add: upt_rec)

lemma dft4_eval:
  "dft4 [a, b, c, d] = [Complex (a + b + c + d) 0, Complex (a - c) (d - b), Complex (a - b + c - d) 0]"
  by (simp add: dft4_def twiddle4_def upt3 upt4 complex_eq_iff)

lemma spectra4_eval:
  "spectra4 (a # b # c # d # rest) [[1, 1, 1, 1]] n =
     [[Complex (a + b + c + d) 0, Complex (a - c) (d - b), Complex (a - b + c - d) 0]]"
  by (simp add: spectra4_def dft4_eval)

lemma csdConj_eval:
  "csdConj [[a0, a1, a2]] [[b0, b1, b2]] w1 w2 4 s = [a0 * cnj b0, a1 * cnj b1, a2 * cnj b2]"
  by (simp add: csdConj_def nthOr0_def upt3)

lemma csdConj_empty: "csdConj [] [] w1 w2 4 s = [0, 0, 0]"
  by (simp add: csdConj_def upt3)

lemma length_csdConj: "length (csdConj a b w1 w2 n s) = nat (n div 2 + 1)"
  by (simp add: csdConj_def)

lemma tensor_2_3:
  "tensor 2 3 g = [[[g 0 0 0, g 0 0 1, g 0 0 2], [g 0 1 0, g 0 1 1, g 0 1 2]],
                   [[g 1 0 0, g 1 0 1, g 1 0 2], [g 1 1 0, g 1 1 1, g 1 1 2]]]"
  by (simp add: tensor_def upt2 upt3)

lemma spec_A:
  "tapSpectrum dft4Spectral ([[1, 1, 1, 1]], [1]) 4 trialA 0 = [[Complex 0 0, Complex 2 0, Complex 0 0]]"
  "tapSpectrum dft4Spectral ([[1, 1, 1, 1]], [1]) 4 trialA (Suc 0) = [[Complex 0 0, Complex 0 (- 2), Complex 0 0]]"
  by (simp_all add: tapSpectrum_def dft4Spectral_def trialA_def demean_def spectra4_eval)

lemma spec_C:
  "tapSpectrum dft4Spectral ([[1, 1, 1, 1]], [1]) 4 trialC j = tapSpectrum dft4Spectral ([[1, 1, 1, 1]], [1]) 4 trialA j"
  if "j < 2"
proof -
  have "j = 0 \<or> j = 1" using that by auto
  then show ?thesis
    by (auto simp: tapSpectrum_def dft4Spectral_def trialA_def trialC_def demean_def spectra4_eval)
qed

lemma csd_A:
  "trialCsd dft4Spectral ([[1, 1, 1, 1]], [1]) 4 trialA 0 0 = [Complex 0 0, Complex 4 0, Complex 0 0]"
  "trialCsd dft4Spectral ([[1, 1, 1, 1]], [1]) 4 trialA 0 (Suc 0) = [Complex 0 0, Complex 0 4, Complex 0 0]"
  "trialCsd dft4Spectral ([[1, 1, 1, 1]], [1]) 4 trialA (Suc 0) 0 = [Complex 0 0, Complex 0 (- 4), Complex 0 0]"
  "trialCsd dft4Spectral ([[1, 1, 1, 1]], [1]) 4 trialA (Suc 0) (Suc 0) = [Complex 0 0, Complex 4 0, Complex 0 0]"
  unfolding trialCsd_def spec_A
  by (simp_all add: dft4Spectral_def csdConj_eval complex_eq_iff)

lemma csd_C:
  "trialCsd dft4Spectral ([[1, 1, 1, 1]], [1]) 4 trialC j k = trialCsd dft4Spectral ([[1, 1, 1, 1]], [1]) 4 trialA j k"
  if "j < 2" "k < 2"
  unfolding trialCsd_def using that by (simp add: spec_C)

lemma window_AC:
  "windowTapers dft4Spectral (trialA # ts) w = ([[1, 1, 1, 1]], [1])"
  "windowNfft (trialA # ts) 4 = 4"
  "nFreqs (trialA # ts) 4 = 3"
  "rows trialA = 2"
  by (simp_all add: windowTapers_def windowNfft_def nFreqs_def dft4Spectral_def boxcarTapers_def
        cols_def rows_def trialA_def numeral_eq_Suc)

lemma shape_AC:
  "rows trialC = 2" "list_all (\<lambda>r. r \<noteq> []) trialA" "list_all (\<lambda>r. r \<noteq> []) trialC"
  by (simp_all add: rows_def trialA_def trialC_def)

lemma trialOk_csdConj:
  "trialOk dft4Spectral tapers 4 n 3 trial \<longleftrightarrow> n \<le> rows trial \<and> list_all (\<lambda>r. r \<noteq> []) trial"
  by (simp add: trialOk_def trialCsd_def dft4Spectral_def length_csdConj list_all_iff)

lemma wf_AC: "wellFormed dft4Spectral [trialA, trialC] 4 w"
  unfolding wellFormed_def window_AC trialOk_csdConj
  by (simp add: shape_AC window_AC)

lemma signSum_two:
  "signSum sp [t0, t1] n w i k f =
     cwiseSign (Im (trialCsd sp (windowTapers sp [t0, t1] w) (windowNfft [t0, t1] n) t0 i k ! f)) +
     cwiseSign (Im (trialCsd sp (windowTapers sp [t0, t1] w) (windowNfft [t0, t1] n) t1 i k ! f))"
proof -
  have two: "{..<2::nat} = {0, 1}" by auto
  show ?thesis by (simp add: signSum_def two)
qed

lemma signSum_AC:
  "signSum dft4Spectral [trialA, trialC] 4 w i k f =
     (if f = 1 \<and> i = 0 \<and> k = 1 then 2 else if f = 1 \<and> i = 1 \<and> k = 0 then - 2 else 0)"
  if "i < 2" "k < 2" "f < 3"
proof -
  have i: "i = 0 \<or> i = Suc 0" and k: "k = 0 \<or> k = Suc 0" and f: "f = 0 \<or> f = Suc 0 \<or> f = Suc (Suc 0)"
    using that by auto
  have C: "trialCsd dft4Spectral ([[1, 1, 1, 1]], [1]) 4 trialC i k = trialCsd dft4Spectral ([[1, 1, 1, 1]], [1]) 4 trialA i k"
    using that(1,2) by (rule csd_C)
  have "signSum dft4Spectral [trialA, trialC] 4 w i k f =
      2 * cwiseSign (Im (trialCsd dft4Spectral ([[1, 1, 1, 1]], [1]) 4 trialA i k ! f))"
    by (simp add: signSum_two window_AC C)
  also have "\<dots> = (if f = 1 \<and> i = 0 \<and> k = 1 then 2 else if f = 1 \<and> i = 1 \<and> k = 0 then - 2 else 0)"
    using i k f by (elim disjE) (simp_all add: csd_A cwiseSign_def)
  finally show ?thesis .
qed

lemma run_AC:
  "computePLI dft4Spectral [trialA, trialC] 4 w = Inr [[[0, 0, 0], [0, 1, 0]], [[0, 1, 0], [0, 0, 0]]]"
proof -
  have "computePLI dft4Spectral [trialA, trialC] 4 w =
      Inr (tensor 2 3 (\<lambda>i k f. \<bar>signSum dft4Spectral [trialA, trialC] 4 w i k f\<bar> / 2))"
    using wf_AC[of w] by (simp add: computePLI_iff window_AC)
  also have "tensor 2 3 (\<lambda>i k f. \<bar>signSum dft4Spectral [trialA, trialC] 4 w i k f\<bar> / 2) =
      [[[0, 0, 0], [0, 1, 0]], [[0, 1, 0], [0, 0, 0]]]"
    unfolding tensor_2_3 by (simp add: signSum_AC)
  finally show ?thesis .
qed

section \<open>Facts about the sum of signs\<close>

lemma tensor_nth:
  "i < n \<Longrightarrow> k < n \<Longrightarrow> f < m \<Longrightarrow> tensor n m g ! i ! k ! f = g i k f"
  by (simp add: tensor_def)

lemma wellFormed_nonempty: "wellFormed sp ds nfft w \<Longrightarrow> ds \<noteq> []"
  by (simp add: wellFormed_def)

lemma computePLI_returns_iff:
  "(\<exists>pli. computePLI sp ds nfft w = Inr pli) \<longleftrightarrow> wellFormed sp ds nfft w"
  by (simp add: computePLI_iff)

lemma abs_cwiseSign_le: "\<bar>cwiseSign x\<bar> \<le> 1"
  by (simp add: cwiseSign_def)

lemma cwiseSign_minus: "cwiseSign (- x) = - cwiseSign x"
  by (simp add: cwiseSign_def)

lemma abs_signSum_le: "\<bar>signSum sp ds nfft w i k f\<bar> \<le> real (length ds)"
proof -
  have "\<bar>signSum sp ds nfft w i k f\<bar> \<le> (\<Sum>t<length ds. (1::real))"
    unfolding signSum_def by (intro order_trans[OF sum_abs] sum_mono abs_cwiseSign_le)
  then show ?thesis by simp
qed

lemma nthOr0_cnj: "nthOr0 (map cnj r) f = cnj (nthOr0 r f)"
  by (simp add: nthOr0_def)

lemma conj_rows: "map2 (\<lambda>x y. x * cnj y) ra rb = map cnj (map2 (\<lambda>x y. x * cnj y) rb ra)"
proof (induction ra arbitrary: rb)
  case Nil
  show ?case by simp
next
  case (Cons x ra)
  show ?case
  proof (cases rb)
    case Nil
    then show ?thesis by simp
  next
    case (Cons y rb')
    then show ?thesis using Cons.IH[of rb'] by simp
  qed
qed

lemma conj_mats:
  "map2 (map2 (\<lambda>x y. x * cnj y)) a b = map (map cnj) (map2 (map2 (\<lambda>x y. x * cnj y)) b a)"
proof (induction a arbitrary: b)
  case Nil
  show ?case by simp
next
  case (Cons ra a)
  show ?case
  proof (cases b)
    case Nil
    then show ?thesis by simp
  next
    case (Cons rb b')
    then show ?thesis using Cons.IH[of b'] conj_rows[of ra rb] by simp
  qed
qed

lemma sum_nthOr0_cnj:
  "(\<Sum>r\<leftarrow>map (map cnj) rs. nthOr0 r f) = cnj (\<Sum>r\<leftarrow>rs. nthOr0 r f)"
  by (induction rs) (simp_all add: nthOr0_cnj)

lemma csdConj_swap: "csdConj a b w w n s = map cnj (csdConj b a w w n s)"
proof -
  have "csdConj a b w w n s =
      map (\<lambda>f. \<Sum>r\<leftarrow>map (map cnj) (map2 (map2 (\<lambda>x y. x * cnj y)) b a). nthOr0 r f) [0..<nat (n div 2 + 1)]"
    unfolding csdConj_def by (subst conj_mats) (rule refl)
  also have "\<dots> = map cnj (csdConj b a w w n s)"
    unfolding csdConj_def sum_nthOr0_cnj by simp
  finally show ?thesis .
qed

lemma csdConj_conjugates: "csdConjugates dft4Spectral"
  unfolding csdConjugates_def dft4Spectral_def spectral.select_convs
  by (intro allI csdConj_swap)

lemma trialOk_length:
  assumes "wellFormed sp ds nfft w" "t < length ds" "i < rows (hd ds)" "k < rows (hd ds)"
  shows "length (trialCsd sp (windowTapers sp ds w) (windowNfft ds nfft) (ds ! t) i k) = nFreqs ds nfft"
proof -
  have "trialOk sp (windowTapers sp ds w) (windowNfft ds nfft) (rows (hd ds)) (nFreqs ds nfft) (ds ! t)"
    using assms(1,2) by (simp add: wellFormed_def list_all_length)
  then show ?thesis using assms(3,4) by (simp add: trialOk_def list_all_iff)
qed

lemma signSum_swap:
  assumes "wellFormed sp ds nfft w" "csdConjugates sp"
    and "i < rows (hd ds)" "k < rows (hd ds)" "f < nFreqs ds nfft"
  shows "signSum sp ds nfft w i k f = - signSum sp ds nfft w k i f"
proof -
  let ?c = "\<lambda>t i k. trialCsd sp (windowTapers sp ds w) (windowNfft ds nfft) (ds ! t) i k"
  have swap: "csdFromTaperedSpectra sp a b v v n s = map cnj (csdFromTaperedSpectra sp b a v v n s)"
    for a b v n s
    using assms(2) unfolding csdConjugates_def by blast
  have "cwiseSign (Im (?c t i k ! f)) = - cwiseSign (Im (?c t k i ! f))" if "t < length ds" for t
  proof -
    have "?c t i k = map cnj (?c t k i)"
      unfolding trialCsd_def by (rule swap)
    moreover have "f < length (?c t k i)"
      using trialOk_length[OF assms(1) that assms(4,3)] assms(5) by simp
    ultimately show ?thesis by (simp add: cwiseSign_minus)
  qed
  then show ?thesis
    unfolding signSum_def by (simp add: sum_negf)
qed

section \<open>The debiasing loop and the origin of errors\<close>

lemma unbiased_loop:
  assumes "n \<le> length v"
  shows "foldE (\<lambda>j v. case qAt v j of Inl e \<Rightarrow> Inl e | Inr m \<Rightarrow> Inr (v[j := H m])) [0..<n] v
         = Inr (map (\<lambda>j. if j < n then H (v ! j) else v ! j) [0..<length v])"
  using assms
proof (induction n)
  case 0
  show ?case by (simp add: map_nth)
next
  case (Suc n)
  let ?mid = "map (\<lambda>j. if j < n then H (v ! j) else v ! j) [0..<length v]"
  have n: "n < length v" using Suc.prems by simp
  have upd: "?mid[n := H (?mid ! n)] = map (\<lambda>j. if j < Suc n then H (v ! j) else v ! j) [0..<length v]"
  proof (rule nth_equalityI)
    show "length (?mid[n := H (?mid ! n)]) = length (map (\<lambda>j. if j < Suc n then H (v ! j) else v ! j) [0..<length v])"
      by simp
  next
    fix i assume "i < length (?mid[n := H (?mid ! n)])"
    then have i: "i < length v" by simp
    show "?mid[n := H (?mid ! n)] ! i = map (\<lambda>j. if j < Suc n then H (v ! j) else v ! j) [0..<length v] ! i"
    proof (cases "i = n")
      case True
      then show ?thesis using i by simp
    next
      case False
      then show ?thesis using i by (simp add: less_Suc_eq)
    qed
  qed
  have "qAt ?mid n = Inr (?mid ! n)" using n by (simp add: qAt_def)
  then show ?case
    using Suc upd by (simp add: foldE_append)
qed

lemma computePLI_length:
  "computePLI sp ds nfft w = Inr pli \<Longrightarrow> ds \<noteq> [] \<and> length pli = rows (hd ds)"
  by (auto simp: computePLI_iff length_tensor wellFormed_def)

lemma computeUnbiased_closed:
  assumes "computePLI sp ds nfft w = Inr pli"
  shows "computeUnbiasedSquaredPLI sp ds nfft w =
     Inr (map (map (map (\<lambda>p. ddiv (real (length ds) * p\<^sup>2 - 1) (real (length ds) - 1)))) pli)"
proof -
  have ds: "ds \<noteq> []" and len: "length pli = rows (hd ds)"
    using computePLI_length[OF assms] by auto
  have first: "qAt ds 0 = Inr (hd ds)"
    using ds by (cases ds) (simp_all add: qAt_def)
  let ?v = "map (map (map Finite)) pli"
  have "foldE (\<lambda>j v. case qAt v j of Inl e \<Rightarrow> Inl e
                   | Inr m \<Rightarrow> Inr (v[j := map (map (unbiasedEntry (length ds))) m]))
          [0..<rows (hd ds)] ?v
        = Inr (map (\<lambda>j. if j < rows (hd ds) then map (map (unbiasedEntry (length ds))) (?v ! j) else ?v ! j)
                 [0..<length ?v])"
    using len by (intro unbiased_loop) simp
  also have "map (\<lambda>j. if j < rows (hd ds) then map (map (unbiasedEntry (length ds))) (?v ! j) else ?v ! j)
                 [0..<length ?v]
        = map (map (map (\<lambda>p. ddiv (real (length ds) * p\<^sup>2 - 1) (real (length ds) - 1)))) pli"
    using len by (intro nth_equalityI) (simp_all add: comp_def)
  finally show ?thesis
    using assms first by (simp add: computeUnbiasedSquaredPLI_def Let_def)
qed

lemma computeUnbiased_Inl:
  assumes "computePLI sp ds nfft w = Inl e"
  shows "computeUnbiasedSquaredPLI sp ds nfft w = Inl e"
proof (cases ds)
  case Nil
  then show ?thesis using assms by (simp add: computeUnbiasedSquaredPLI_def computePLI_def qAt_def)
next
  case (Cons a list)
  then show ?thesis using assms by (simp add: computeUnbiasedSquaredPLI_def qAt_def Let_def)
qed

lemma mapE_Inl: "mapE f xs = Inl e \<Longrightarrow> \<exists>x\<in>set xs. f x = Inl e"
  by (induction xs) (auto split: sum.splits)

lemma foldE_Inl: "foldE f xs s = Inl e \<Longrightarrow> \<exists>x\<in>set xs. \<exists>s'. f x s' = Inl e"
  by (induction xs arbitrary: s) (auto split: sum.splits)

lemma sumEpoch_Inl:
  assumes "sumEpoch sp tapers iNfft n F trial acc = Inl e"
  shows "e = EigenAssertion"
proof (cases "mapE removeMean trial")
  case (Inl e1)
  then have "e1 = e" using assms by (simp add: sumEpoch_def)
  moreover obtain r where "removeMean r = Inl e1" using mapE_Inl[OF Inl] by blast
  ultimately show ?thesis by (simp add: removeMean_def split: if_splits)
next
  case (Inr m)
  let ?spec = "mapE (\<lambda>j. case rowAt m j of Inl e \<Rightarrow> Inl e
                   | Inr r \<Rightarrow> Inr (computeTaperedSpectra sp r (fst tapers) iNfft)) [0..<n]"
  show ?thesis
  proof (cases ?spec)
    case (Inl e1)
    then have "e1 = e" using assms Inr by (simp add: sumEpoch_def)
    moreover obtain j where "(case rowAt m j of Inl e \<Rightarrow> Inl e
                   | Inr r \<Rightarrow> Inr (computeTaperedSpectra sp r (fst tapers) iNfft)) = Inl e1"
      using mapE_Inl[OF Inl] by blast
    ultimately show ?thesis by (simp add: rowAt_def split: if_splits)
  next
    case spec: (Inr v)
    let ?step = "\<lambda>j acc. case mapE (\<lambda>k. csdRow sp tapers iNfft F (v ! j) (v ! k)) [0..<n] of
                        Inl e \<Rightarrow> Inl e
                      | Inr matCsd \<Rightarrow> Inr (acc[j := matAdd (acc ! j) (imagSign matCsd)])"
    have "foldE ?step [0..<n] acc = Inl e"
      using assms Inr spec by (simp add: sumEpoch_def)
    then obtain j a where "?step j a = Inl e" using foldE_Inl by fast
    then have "mapE (\<lambda>k. csdRow sp tapers iNfft F (v ! j) (v ! k)) [0..<n] = Inl e"
      by (simp split: sum.splits)
    then obtain k where "csdRow sp tapers iNfft F (v ! j) (v ! k) = Inl e"
      using mapE_Inl by fast
    then show ?thesis by (simp add: csdRow_def Let_def split: if_splits)
  qed
qed

lemma computePLI_Inl:
  assumes "computePLI sp ds nfft w = Inl e"
  shows "e = QListIndexOutOfRange \<or> e = EigenAssertion"
proof (cases ds)
  case Nil
  then show ?thesis using assms by (simp add: computePLI_def qAt_def)
next
  case (Cons first rest)
  then obtain tapers n m F acc where "foldE (sumEpoch sp tapers n m F) ds acc = Inl e"
    using assms by (auto simp: computePLI_def qAt_def Let_def split: sum.splits)
  then obtain t a where "sumEpoch sp tapers n m F t a = Inl e" using foldE_Inl by fast
  then show ?thesis using sumEpoch_Inl by blast
qed

section \<open>The assembled network in closed form\<close>

lemma rows_tensor: "i < n \<Longrightarrow> rows (tensor n F g ! i) = n"
  by (simp add: tensor_def rows_def)

lemma computePLI_shape:
  assumes "computePLI sp ds nfft w = Inr pli"
  shows "ds \<noteq> []" "length pli = rows (hd ds)" "\<And>i. i < rows (hd ds) \<Longrightarrow> rows (pli ! i) = rows (hd ds)"
  using assms by (auto simp: computePLI_iff length_tensor rows_tensor wellFormed_def)

lemma phaseLagIndex_closed:
  assumes "computePLI sp ds nfft w = Inr pli"
  shows "phaseLagIndex sp ds mv nfft w = Inr (assembled ''Phase Lag Index'' mv (rows (hd ds)) pli)"
  using assms computePLI_shape[OF assms]
  by (simp add: phaseLagIndex_def Let_def assemble_closed assembled_def)

lemma unbiasedSquaredPhaseLagIndex_closed:
  assumes "computePLI sp ds nfft w = Inr pli"
  shows "unbiasedSquaredPhaseLagIndex sp ds mv nfft w =
     Inr (assembled ''Unbiased Squared Phase Lag Index'' mv (rows (hd ds))
            (map (map (map (\<lambda>p. ddiv (real (length ds) * p\<^sup>2 - 1) (real (length ds) - 1)))) pli))"
proof -
  let ?u = "map (map (map (\<lambda>p. ddiv (real (length ds) * p\<^sup>2 - 1) (real (length ds) - 1)))) pli"
  have "length ?u = rows (hd ds)" "\<And>i. i < rows (hd ds) \<Longrightarrow> rows (?u ! i) = rows (hd ds)"
    using computePLI_shape[OF assms] by (simp_all add: rows_def)
  then show ?thesis
    using computePLI_shape(1)[OF assms] computeUnbiased_closed[OF assms]
    by (simp add: unbiasedSquaredPhaseLagIndex_def Let_def assemble_closed assembled_def)
qed

lemma endpoints_edgeOf: "endpoints (edgeOf vec i j) = (i, j)"
  by (simp add: endpoints_def edgeOf_def)

lemma assembled_nodeIds: "map nodeId (nodes (assembled nm mv n vec)) = [0..<n]"
  by (simp add: assembled_def comp_def map_idI)

lemma assembled_endpoints:
  "map endpoints (edges (assembled nm mv n vec)) = concat (map (\<lambda>i. map (\<lambda>j. (i, j)) [0..<n]) [0..<n])"
  by (simp add: assembled_def map_concat comp_def endpoints_edgeOf)

lemma assembled_edge_count: "length (edges (assembled nm mv n vec)) = n * n"
  by (simp add: assembled_def length_concat comp_def sum_list_triv)

lemma assembled_structure:
  "graphStructure (assembled nm mv n vec) =
     (map (\<lambda>i. (i, rowVertAt mv i, map (\<lambda>j. (i, j)) [0..<n])) [0..<n],
      concat (map (\<lambda>i. map (\<lambda>j. (i, j)) [0..<n]) [0..<n]))"
  by (simp add: graphStructure_def assembled_def map_concat comp_def endpoints_edgeOf)

section \<open>Dependence on the spectral library\<close>

lemma sumEpoch_cong:
  assumes "\<And>row. computeTaperedSpectra sp' row (fst tapers) iNfft = computeTaperedSpectra sp row (fst tapers) iNfft"
    and "\<And>a b. csdFromTaperedSpectra sp' a b (snd tapers) (snd tapers) iNfft 1
                 = csdFromTaperedSpectra sp a b (snd tapers) (snd tapers) iNfft 1"
  shows "sumEpoch sp' tapers iNfft n F = sumEpoch sp tapers iNfft n F"
proof -
  have row: "csdRow sp' tapers iNfft F = csdRow sp tapers iNfft F"
    by (intro ext) (simp add: csdRow_def assms(2))
  show ?thesis
    unfolding sumEpoch_def row assms(1) by (rule refl)
qed

lemma computePLI_window:
  assumes "ds \<noteq> []"
  shows "computePLI sp ds nfft w =
     (case foldE (sumEpoch sp (windowTapers sp ds w) (windowNfft ds nfft) (rows (hd ds)) (nFreqs ds nfft))
             ds (replicate (rows (hd ds)) (zeroMat (rows (hd ds)) (nFreqs ds nfft))) of
        Inl e \<Rightarrow> Inl e
      | Inr acc \<Rightarrow> Inr (map (\<lambda>m. map (map (\<lambda>x. \<bar>x\<bar> / real (length ds))) m) acc))"
proof -
  obtain first rest where ds: "ds = first # rest" using assms by (cases ds) auto
  have q: "qAt ds 0 = Inr first" by (simp add: ds qAt_def)
  show ?thesis
    unfolding computePLI_def q sum.case Let_def windowTapers_def windowNfft_def nFreqs_def
    by (simp only: ds list.sel)
qed

section \<open>More runs of the instance\<close>

lemma wf_A: "wellFormed dft4Spectral [trialA] 4 w"
  unfolding wellFormed_def window_AC trialOk_csdConj
  by (simp add: shape_AC window_AC)

lemma signSum_A:
  "signSum dft4Spectral [trialA] 4 w i k f =
     (if f = 1 \<and> i = 0 \<and> k = 1 then 1 else if f = 1 \<and> i = 1 \<and> k = 0 then - 1 else 0)"
  if "i < 2" "k < 2" "f < 3"
proof -
  have i: "i = 0 \<or> i = Suc 0" and k: "k = 0 \<or> k = Suc 0" and f: "f = 0 \<or> f = Suc 0 \<or> f = Suc (Suc 0)"
    using that by auto
  have "signSum dft4Spectral [trialA] 4 w i k f =
      cwiseSign (Im (trialCsd dft4Spectral ([[1, 1, 1, 1]], [1]) 4 trialA i k ! f))"
    by (simp add: signSum_def window_AC)
  also have "\<dots> = (if f = 1 \<and> i = 0 \<and> k = 1 then 1 else if f = 1 \<and> i = 1 \<and> k = 0 then - 1 else 0)"
    using i k f by (elim disjE) (simp_all add: csd_A cwiseSign_def)
  finally show ?thesis .
qed

lemma run_A:
  "computePLI dft4Spectral [trialA] 4 w = Inr [[[0, 0, 0], [0, 1, 0]], [[0, 1, 0], [0, 0, 0]]]"
proof -
  have "computePLI dft4Spectral [trialA] 4 w =
      Inr (tensor 2 3 (\<lambda>i k f. \<bar>signSum dft4Spectral [trialA] 4 w i k f\<bar> / 1))"
    using wf_A[of w] by (simp add: computePLI_iff window_AC)
  also have "tensor 2 3 (\<lambda>i k f. \<bar>signSum dft4Spectral [trialA] 4 w i k f\<bar> / 1) =
      [[[0, 0, 0], [0, 1, 0]], [[0, 1, 0], [0, 0, 0]]]"
    unfolding tensor_2_3 by (simp add: signSum_A)
  finally show ?thesis .
qed

lemma spec_Long:
  "tapSpectrum dft4Spectral ([[1, 1, 1, 1]], [1]) 4 trialLong j = tapSpectrum dft4Spectral ([[1, 1, 1, 1]], [1]) 4 trialA j"
  "tapSpectrum checkedSpectral ([[1, 1, 1, 1]], [1]) 4 trialLong j = []"
  "tapSpectrum checkedSpectral ([[1, 1, 1, 1]], [1]) 4 trialA j = tapSpectrum dft4Spectral ([[1, 1, 1, 1]], [1]) 4 trialA j"
  if "j < 2"
proof -
  have "j = 0 \<or> j = 1" using that by auto
  then show
    "tapSpectrum dft4Spectral ([[1, 1, 1, 1]], [1]) 4 trialLong j = tapSpectrum dft4Spectral ([[1, 1, 1, 1]], [1]) 4 trialA j"
    "tapSpectrum checkedSpectral ([[1, 1, 1, 1]], [1]) 4 trialLong j = []"
    "tapSpectrum checkedSpectral ([[1, 1, 1, 1]], [1]) 4 trialA j = tapSpectrum dft4Spectral ([[1, 1, 1, 1]], [1]) 4 trialA j"
    by (auto simp: tapSpectrum_def dft4Spectral_def checkedSpectral_def checkedSpectra4_def cols_def
          trialA_def trialLong_def demean_def spectra4_eval)
qed

lemma csd_Long:
  "trialCsd dft4Spectral ([[1, 1, 1, 1]], [1]) 4 trialLong j k = trialCsd dft4Spectral ([[1, 1, 1, 1]], [1]) 4 trialA j k"
  "trialCsd checkedSpectral ([[1, 1, 1, 1]], [1]) 4 trialLong j k = [0, 0, 0]"
  "trialCsd checkedSpectral ([[1, 1, 1, 1]], [1]) 4 trialA j k = trialCsd dft4Spectral ([[1, 1, 1, 1]], [1]) 4 trialA j k"
  if "j < 2" "k < 2"
  unfolding trialCsd_def using that
  by (simp_all add: spec_Long) (simp_all add: checkedSpectral_def dft4Spectral_def csdConj_empty)

lemma window_checked:
  "windowTapers checkedSpectral (trialA # ts) w = ([[1, 1, 1, 1]], [1])"
  by (simp add: windowTapers_def checkedSpectral_def boxcarTapers_def cols_def trialA_def numeral_eq_Suc)

lemma shape_Long:
  "rows trialLong = 2" "list_all (\<lambda>r. r \<noteq> []) trialLong" "cols trialLong = 8"
  by (simp_all add: rows_def cols_def trialLong_def)

lemma trialOk_checked:
  "trialOk checkedSpectral tapers 4 n 3 trial \<longleftrightarrow> n \<le> rows trial \<and> list_all (\<lambda>r. r \<noteq> []) trial"
  by (simp add: trialOk_def trialCsd_def checkedSpectral_def length_csdConj list_all_iff)

lemma wf_ALong:
  "wellFormed dft4Spectral [trialA, trialLong] 4 w"
  "wellFormed checkedSpectral [trialA, trialLong] 4 w"
  unfolding wellFormed_def window_AC window_checked trialOk_csdConj trialOk_checked
  by (simp_all add: shape_AC shape_Long window_AC)

lemma signSum_ALong:
  "signSum dft4Spectral [trialA, trialLong] 4 w i k f =
     (if f = 1 \<and> i = 0 \<and> k = 1 then 2 else if f = 1 \<and> i = 1 \<and> k = 0 then - 2 else 0)"
  "signSum checkedSpectral [trialA, trialLong] 4 w i k f =
     (if f = 1 \<and> i = 0 \<and> k = 1 then 1 else if f = 1 \<and> i = 1 \<and> k = 0 then - 1 else 0)"
  if "i < 2" "k < 2" "f < 3"
proof -
  have i: "i = 0 \<or> i = Suc 0" and k: "k = 0 \<or> k = Suc 0" and f: "f = 0 \<or> f = Suc 0 \<or> f = Suc (Suc 0)"
    using that by auto
  have "signSum dft4Spectral [trialA, trialLong] 4 w i k f =
      2 * cwiseSign (Im (trialCsd dft4Spectral ([[1, 1, 1, 1]], [1]) 4 trialA i k ! f))"
    by (simp add: signSum_two window_AC csd_Long(1)[OF that(1,2)])
  also have "\<dots> = (if f = 1 \<and> i = 0 \<and> k = 1 then 2 else if f = 1 \<and> i = 1 \<and> k = 0 then - 2 else 0)"
    using i k f by (elim disjE) (simp_all add: csd_A cwiseSign_def)
  finally show "signSum dft4Spectral [trialA, trialLong] 4 w i k f =
     (if f = 1 \<and> i = 0 \<and> k = 1 then 2 else if f = 1 \<and> i = 1 \<and> k = 0 then - 2 else 0)" .
  have z: "cwiseSign (Im ([0, 0, 0] ! f)) = 0"
    using f by (elim disjE) (simp_all add: cwiseSign_def)
  have "signSum checkedSpectral [trialA, trialLong] 4 w i k f =
      cwiseSign (Im (trialCsd dft4Spectral ([[1, 1, 1, 1]], [1]) 4 trialA i k ! f))"
    by (simp add: signSum_two window_AC window_checked csd_Long(2,3)[OF that(1,2)] z)
  also have "\<dots> = (if f = 1 \<and> i = 0 \<and> k = 1 then 1 else if f = 1 \<and> i = 1 \<and> k = 0 then - 1 else 0)"
    using i k f by (elim disjE) (simp_all add: csd_A cwiseSign_def)
  finally show "signSum checkedSpectral [trialA, trialLong] 4 w i k f =
     (if f = 1 \<and> i = 0 \<and> k = 1 then 1 else if f = 1 \<and> i = 1 \<and> k = 0 then - 1 else 0)" .
qed

lemma run_ALong:
  "computePLI dft4Spectral [trialA, trialLong] 4 w = Inr [[[0, 0, 0], [0, 1, 0]], [[0, 1, 0], [0, 0, 0]]]"
  "computePLI checkedSpectral [trialA, trialLong] 4 w = Inr [[[0, 0, 0], [0, 1 / 2, 0]], [[0, 1 / 2, 0], [0, 0, 0]]]"
proof -
  have "computePLI dft4Spectral [trialA, trialLong] 4 w =
      Inr (tensor 2 3 (\<lambda>i k f. \<bar>signSum dft4Spectral [trialA, trialLong] 4 w i k f\<bar> / 2))"
    using wf_ALong(1)[of w] by (simp add: computePLI_iff window_AC)
  also have "tensor 2 3 (\<lambda>i k f. \<bar>signSum dft4Spectral [trialA, trialLong] 4 w i k f\<bar> / 2) =
      [[[0, 0, 0], [0, 1, 0]], [[0, 1, 0], [0, 0, 0]]]"
    unfolding tensor_2_3 by (simp add: signSum_ALong)
  finally show "computePLI dft4Spectral [trialA, trialLong] 4 w = Inr [[[0, 0, 0], [0, 1, 0]], [[0, 1, 0], [0, 0, 0]]]" .
  have "computePLI checkedSpectral [trialA, trialLong] 4 w =
      Inr (tensor 2 3 (\<lambda>i k f. \<bar>signSum checkedSpectral [trialA, trialLong] 4 w i k f\<bar> / 2))"
    using wf_ALong(2)[of w] by (simp add: computePLI_iff window_AC)
  also have "tensor 2 3 (\<lambda>i k f. \<bar>signSum checkedSpectral [trialA, trialLong] 4 w i k f\<bar> / 2) =
      [[[0, 0, 0], [0, 1 / 2, 0]], [[0, 1 / 2, 0], [0, 0, 0]]]"
    unfolding tensor_2_3 by (simp add: signSum_ALong)
  finally show "computePLI checkedSpectral [trialA, trialLong] 4 w = Inr [[[0, 0, 0], [0, 1 / 2, 0]], [[0, 1 / 2, 0], [0, 0, 0]]]" .
qed

section \<open>C1: the trial count is not guarded\<close>

text \<open>
  C1 (counterexample). With a single trial \<open>computeUnbiasedSquaredPLI\<close> reports no
  error: it divides by \<open>double(1 - 1)\<close> and returns a tensor whose entries are
  \<open>-Inf\<close> (where the index is 0) and \<open>NaN\<close> (where the index is 1).
\<close>

theorem single_trial_not_rejected:
  "computeUnbiasedSquaredPLI dft4Spectral [trialA] 4 ''ones'' =
     Inr [[[NegInf, NegInf, NegInf], [NegInf, NaN, NegInf]],
          [[NegInf, NaN, NegInf], [NegInf, NegInf, NegInf]]] \<and>
   computeUnbiasedSquaredPLI dft4Spectral [trialA] 4 ''ones'' \<noteq> Inl InvalidTrialCount"
  by (simp add: computeUnbiased_closed[OF run_A] ddiv_def)

text \<open>
  C1 (amended). \<open>computeUnbiasedSquaredPLI\<close> has no trial-count guard: it never reports
  \<open>InvalidTrialCount\<close>, it returns a tensor for every trial list the code accepts (a
  single trial included), and with \<open>T \<ge> 2\<close> trials every entry of that tensor is the
  finite value \<open>(T * p\<^sup>2 - 1) / (T - 1)\<close>, \<open>p\<close> being the entry of the Phase Lag Index.
\<close>

theorem unbiased_no_trial_count_guard:
  "computeUnbiasedSquaredPLI sp ds nfft w \<noteq> Inl InvalidTrialCount \<and>
   (wellFormed sp ds nfft w \<longrightarrow>
      (\<exists>pli u. computePLI sp ds nfft w = Inr pli \<and>
           computeUnbiasedSquaredPLI sp ds nfft w = Inr u \<and>
           (2 \<le> length ds \<longrightarrow>
              (\<forall>i<rows (hd ds). \<forall>k<rows (hd ds). \<forall>f<nFreqs ds nfft.
                 u ! i ! k ! f =
                   Finite ((real (length ds) * (pli ! i ! k ! f)\<^sup>2 - 1) / (real (length ds) - 1))))))"
proof
  show "computeUnbiasedSquaredPLI sp ds nfft w \<noteq> Inl InvalidTrialCount"
  proof (cases "computePLI sp ds nfft w")
    case (Inl e)
    then show ?thesis using computeUnbiased_Inl[OF Inl] computePLI_Inl[OF Inl] by auto
  next
    case (Inr pli)
    then show ?thesis using computeUnbiased_closed[OF Inr] by simp
  qed
next
  show "wellFormed sp ds nfft w \<longrightarrow>
      (\<exists>pli u. computePLI sp ds nfft w = Inr pli \<and>
           computeUnbiasedSquaredPLI sp ds nfft w = Inr u \<and>
           (2 \<le> length ds \<longrightarrow>
              (\<forall>i<rows (hd ds). \<forall>k<rows (hd ds). \<forall>f<nFreqs ds nfft.
                 u ! i ! k ! f =
                   Finite ((real (length ds) * (pli ! i ! k ! f)\<^sup>2 - 1) / (real (length ds) - 1)))))"
  proof
    assume wf: "wellFormed sp ds nfft w"
    let ?pli = "tensor (rows (hd ds)) (nFreqs ds nfft)
                (\<lambda>i k f. \<bar>signSum sp ds nfft w i k f\<bar> / real (length ds))"
    let ?h = "\<lambda>p. ddiv (real (length ds) * p\<^sup>2 - 1) (real (length ds) - 1)"
    have run: "computePLI sp ds nfft w = Inr ?pli"
      using wf by (simp add: computePLI_iff)
    have u: "computeUnbiasedSquaredPLI sp ds nfft w = Inr (map (map (map ?h)) ?pli)"
      by (rule computeUnbiased_closed[OF run])
    have "map (map (map ?h)) ?pli ! i ! k ! f =
            Finite ((real (length ds) * (?pli ! i ! k ! f)\<^sup>2 - 1) / (real (length ds) - 1))"
      if "2 \<le> length ds" "i < rows (hd ds)" "k < rows (hd ds)" "f < nFreqs ds nfft" for i k f
      using that by (simp add: tensor_def ddiv_def)
    then show "\<exists>pli u. computePLI sp ds nfft w = Inr pli \<and>
           computeUnbiasedSquaredPLI sp ds nfft w = Inr u \<and>
           (2 \<le> length ds \<longrightarrow>
              (\<forall>i<rows (hd ds). \<forall>k<rows (hd ds). \<forall>f<nFreqs ds nfft.
                 u ! i ! k ! f =
                   Finite ((real (length ds) * (pli ! i ! k ! f)\<^sup>2 - 1) / (real (length ds) - 1))))"
      using run u by blast
  qed
qed

theorem unbiased_no_trial_count_guard_witness:
  "computeUnbiasedSquaredPLI dft4Spectral [trialA, trialC] 4 ''ones'' \<noteq> Inl InvalidTrialCount \<and>
   wellFormed dft4Spectral [trialA, trialC] 4 ''ones'' \<and>
   2 \<le> length [trialA, trialC] \<and>
   (\<exists>u. computeUnbiasedSquaredPLI dft4Spectral [trialA, trialC] 4 ''ones'' = Inr u \<and>
        u ! 0 ! 1 ! 1 = Finite 1 \<and> u ! 0 ! 0 ! 1 = Finite (- 1))"
proof -
  let ?D = "[trialA, trialC]"
  from unbiased_no_trial_count_guard[of dft4Spectral ?D 4 "''ones''"] wf_AC[of "''ones''"]
  obtain pli u where ne: "computeUnbiasedSquaredPLI dft4Spectral ?D 4 ''ones'' \<noteq> Inl InvalidTrialCount"
    and pli: "computePLI dft4Spectral ?D 4 ''ones'' = Inr pli"
    and run: "computeUnbiasedSquaredPLI dft4Spectral ?D 4 ''ones'' = Inr u"
    and val: "2 \<le> length ?D \<longrightarrow>
              (\<forall>i<rows (hd ?D). \<forall>k<rows (hd ?D). \<forall>f<nFreqs ?D 4.
                 u ! i ! k ! f =
                   Finite ((real (length ?D) * (pli ! i ! k ! f)\<^sup>2 - 1) / (real (length ?D) - 1)))"
    by blast
  have p: "pli = [[[0, 0, 0], [0, 1, 0]], [[0, 1, 0], [0, 0, 0]]]"
    using pli by (simp add: run_AC)
  have "u ! 0 ! 1 ! 1 = Finite 1" "u ! 0 ! 0 ! 1 = Finite (- 1)"
    using val by (simp_all add: window_AC p)
  then show ?thesis using ne run wf_AC by auto
qed

section \<open>C2: the value of the Phase Lag Index\<close>

text \<open>
  C2. For a trial list the code accepts (\<open>wellFormed\<close>: not empty, and no assertion
  fails on the way; by \<open>computePLI_returns_iff\<close> these are the trial lists on which
  \<open>computePLI\<close> returns), \<open>computePLI\<close> returns a tensor whose entry for the reference
  channel \<open>i\<close>, the target channel \<open>k\<close> and the frequency bin \<open>f\<close> is
  \<open>\<bar>(1/T) * (\<Sum>t. sign (Im (CSD\<^sub>t(i, k, f))))\<bar>\<close>, with \<open>T\<close> the number of trials; the sign
  of a positive number is 1, of a negative number - 1 and of zero 0, so a zero
  imaginary part adds nothing to the accumulator.
\<close>

theorem computePLI_mean_sign:
  assumes "wellFormed sp ds nfft w"
  shows "\<exists>pli. computePLI sp ds nfft w = Inr pli \<and> length pli = rows (hd ds) \<and>
           (\<forall>i<rows (hd ds). \<forall>k<rows (hd ds). \<forall>f<nFreqs ds nfft.
              pli ! i ! k ! f =
                \<bar>(1 / real (length ds)) *
                  (\<Sum>t<length ds.
                     cwiseSign (Im (trialCsd sp (windowTapers sp ds w) (windowNfft ds nfft)
                                      (ds ! t) i k ! f)))\<bar>) \<and>
           (\<forall>x. cwiseSign x = (if 0 < x then 1 else if x < 0 then - 1 else 0))"
proof -
  let ?pli = "tensor (rows (hd ds)) (nFreqs ds nfft)
                (\<lambda>i k f. \<bar>signSum sp ds nfft w i k f\<bar> / real (length ds))"
  have run: "computePLI sp ds nfft w = Inr ?pli"
    using assms by (simp add: computePLI_iff)
  have "?pli ! i ! k ! f = \<bar>(1 / real (length ds)) * signSum sp ds nfft w i k f\<bar>"
    if "i < rows (hd ds)" "k < rows (hd ds)" "f < nFreqs ds nfft" for i k f
    using that by (simp add: tensor_nth abs_mult)
  then show ?thesis
    using run by (auto simp: length_tensor signSum_def cwiseSign_def)
qed

theorem computePLI_mean_sign_witness:
  "wellFormed dft4Spectral [trialA, trialC] 4 ''ones'' \<and>
   (\<exists>pli. computePLI dft4Spectral [trialA, trialC] 4 ''ones'' = Inr pli \<and>
          pli ! 0 ! 1 ! 1 = 1 \<and> pli ! 0 ! 0 ! 1 = 0)"
proof -
  let ?D = "[trialA, trialC]"
  from computePLI_mean_sign[OF wf_AC, of "''ones''"]
  obtain pli where run: "computePLI dft4Spectral ?D 4 ''ones'' = Inr pli"
    and val: "\<forall>i<rows (hd ?D). \<forall>k<rows (hd ?D). \<forall>f<nFreqs ?D 4.
              pli ! i ! k ! f =
                \<bar>(1 / real (length ?D)) *
                  (\<Sum>t<length ?D.
                     cwiseSign (Im (trialCsd dft4Spectral (windowTapers dft4Spectral ?D ''ones'')
                                      (windowNfft ?D 4) (?D ! t) i k ! f)))\<bar>"
    by blast
  have v: "pli ! i ! k ! f = \<bar>(1 / 2) * signSum dft4Spectral ?D 4 ''ones'' i k f\<bar>"
    if "i < 2" "k < 2" "f < 3" for i k f
    using val that unfolding signSum_def by (simp add: window_AC)
  have "pli ! 0 ! 1 ! 1 = 1" "pli ! 0 ! 0 ! 1 = 0"
    using v[of 0 1 1] v[of 0 0 1] by (simp_all add: signSum_AC)
  then show ?thesis using run wf_AC by blast
qed

section \<open>C3: the debiasing transform\<close>

text \<open>
  C3. Whenever \<open>computePLI\<close> returns a tensor, \<open>computeUnbiasedSquaredPLI\<close> returns
  on the same arguments that tensor with every entry \<open>p\<close> replaced by the quotient of
  \<open>T * p\<^sup>2 - 1\<close> and \<open>T - 1\<close> (the division of doubles, \<open>ddiv\<close>), \<open>T\<close> being the number of
  trials; nothing else is computed. With two or more trials the quotient is the real
  number \<open>(T * p\<^sup>2 - 1) / (T - 1)\<close>.
\<close>

theorem unbiased_elementwise:
  assumes "computePLI sp ds nfft w = Inr pli"
  shows "computeUnbiasedSquaredPLI sp ds nfft w =
           Inr (map (map (map (\<lambda>p. ddiv (real (length ds) * p\<^sup>2 - 1) (real (length ds) - 1)))) pli)
         \<and> (2 \<le> length ds \<longrightarrow>
              computeUnbiasedSquaredPLI sp ds nfft w =
                Inr (map (map (map (\<lambda>p. Finite ((real (length ds) * p\<^sup>2 - 1) / (real (length ds) - 1)))))
                       pli))"
proof -
  have "ddiv a (real (length ds) - 1) = Finite (a / (real (length ds) - 1))" if "2 \<le> length ds" for a
    using that by (simp add: ddiv_def)
  then show ?thesis
    using computeUnbiased_closed[OF assms] by simp
qed

theorem unbiased_elementwise_witness:
  "computePLI dft4Spectral [trialA, trialC] 4 ''ones''
     = Inr [[[0, 0, 0], [0, 1, 0]], [[0, 1, 0], [0, 0, 0]]] \<and>
   computeUnbiasedSquaredPLI dft4Spectral [trialA, trialC] 4 ''ones''
     = Inr [[[Finite (- 1), Finite (- 1), Finite (- 1)], [Finite (- 1), Finite 1, Finite (- 1)]],
            [[Finite (- 1), Finite 1, Finite (- 1)], [Finite (- 1), Finite (- 1), Finite (- 1)]]]"
  using unbiased_elementwise[OF run_AC, of "''ones''"] by (simp add: run_AC ddiv_def)

section \<open>C4: one spectral window for all trials\<close>

text \<open>
  C4 (counterexample). The first trial has 4 samples, the second 8, and the requested
  FFT length is 4. The FFT length in force for both trials is 4 and the taper has 4
  entries, although the second trial has 8 samples. \<open>checkedSpectral\<close> and
  \<open>dft4Spectral\<close> answer alike every call whose taper is as long as the row and whose
  FFT length is not below the length of the row, that is every call a trial processed
  in its own window would make; they differ on the call the code makes for the second
  trial (a row of 8 samples, a taper of 4 entries, FFT length 4), and so do the two
  results.
\<close>

theorem later_trial_not_in_own_window:
  "cols trialA = 4 \<and> cols trialLong = 8 \<and> max 4 (int (cols trialLong)) = 8 \<and>
   windowNfft [trialA, trialLong] 4 = 4 \<and>
   cols (fst (windowTapers dft4Spectral [trialA, trialLong] ''ones'')) = 4 \<and>
   computePLI dft4Spectral [trialA, trialLong] 4 ''ones''
     = Inr [[[0, 0, 0], [0, 1, 0]], [[0, 1, 0], [0, 0, 0]]] \<and>
   computePLI checkedSpectral [trialA, trialLong] 4 ''ones''
     = Inr [[[0, 0, 0], [0, 1 / 2, 0]], [[0, 1 / 2, 0], [0, 0, 0]]]"
  by (simp add: run_ALong window_AC shape_Long) (simp add: cols_def trialA_def)

text \<open>
  C4 (amended). All trials are processed in one spectral window fixed by the first
  trial: the tapers are generated once for the first trial's sample count and the FFT
  length is the larger of the requested length and the first trial's sample count.
  The result of \<open>computePLI\<close> depends on the spectral library only through calls with
  these tapers and this FFT length, whatever the sample counts of the later trials.
  (In the run below the two libraries differ at the FFT length 8 of the second trial's
  own window, and the results agree.)
\<close>

theorem common_window:
  assumes "generateTapers sp' (cols (hd ds)) w = generateTapers sp (cols (hd ds)) w"
    and "\<And>row. computeTaperedSpectra sp' row (fst (generateTapers sp (cols (hd ds)) w))
                   (max nfft (int (cols (hd ds))))
                = computeTaperedSpectra sp row (fst (generateTapers sp (cols (hd ds)) w))
                   (max nfft (int (cols (hd ds))))"
    and "\<And>a b. csdFromTaperedSpectra sp' a b (snd (generateTapers sp (cols (hd ds)) w))
                   (snd (generateTapers sp (cols (hd ds)) w)) (max nfft (int (cols (hd ds)))) 1
                = csdFromTaperedSpectra sp a b (snd (generateTapers sp (cols (hd ds)) w))
                   (snd (generateTapers sp (cols (hd ds)) w)) (max nfft (int (cols (hd ds)))) 1"
  shows "computePLI sp' ds nfft w = computePLI sp ds nfft w"
proof (cases "ds = []")
  case True
  then show ?thesis by (simp add: computePLI_def qAt_def)
next
  case False
  have m: "windowNfft ds nfft = max nfft (int (cols (hd ds)))"
    by (simp add: windowNfft_def max_def)
  have t: "windowTapers sp' ds w = windowTapers sp ds w"
    using assms(1) by (simp add: windowTapers_def)
  have e: "sumEpoch sp' (windowTapers sp ds w) (windowNfft ds nfft) n F
      = sumEpoch sp (windowTapers sp ds w) (windowNfft ds nfft) n F" for n F
    unfolding m windowTapers_def using assms(2,3) by (intro sumEpoch_cong)
  show ?thesis
    unfolding computePLI_window[OF False] t e by (rule refl)
qed

theorem common_window_witness:
  "computePLI nfft4Spectral [trialA, trialLong] 4 ''ones''
     = computePLI dft4Spectral [trialA, trialLong] 4 ''ones'' \<and>
   computeTaperedSpectra nfft4Spectral (trialLong ! 0) (fst (boxcarTapers 8 ''ones'')) 8 = [] \<and>
   computeTaperedSpectra dft4Spectral (trialLong ! 0) (fst (boxcarTapers 8 ''ones'')) 8 \<noteq> []"
proof -
  have "computePLI nfft4Spectral [trialA, trialLong] 4 ''ones''
     = computePLI dft4Spectral [trialA, trialLong] 4 ''ones''"
    by (rule common_window) (simp_all add: nfft4Spectral_def dft4Spectral_def cols_def trialA_def)
  then show ?thesis
    by (simp add: nfft4Spectral_def dft4Spectral_def boxcarTapers_def spectra4_def)
qed

section \<open>C5: positions of the nodes beyond the geometry\<close>

text \<open>
  C5 (the code at a failing input). Two channels and a node-position matrix with the
  single row \<open>(1, 2, 3)\<close>: node 1 has no row of its own, and both wrappers give it the
  position \<open>(1, 2, 3)\<close> of node 0 instead of the origin, because \<open>rowVert\<close> lives across
  the iterations of the loop.
\<close>

theorem stale_node_position:
  "map_sum id (\<lambda>net. map vert (nodes net))
     (phaseLagIndex dft4Spectral [trialA, trialC] [(1, 2, 3)] 4 ''ones'') = Inr [(1, 2, 3), (1, 2, 3)] \<and>
   map_sum id (\<lambda>net. map vert (nodes net))
     (unbiasedSquaredPhaseLagIndex dft4Spectral [trialA, trialC] [(1, 2, 3)] 4 ''ones'')
       = Inr [(1, 2, 3), (1, 2, 3)]"
  unfolding phaseLagIndex_closed[OF run_AC] unbiasedSquaredPhaseLagIndex_closed[OF run_AC]
  by (simp add: assembled_def window_AC upt2 rowVertAt_def comp_def)

section \<open>C6: empty input\<close>

text \<open>
  C6. For the empty trial list, whatever the geometry, the FFT length and the window
  type, \<open>phaseLagIndex\<close> and \<open>unbiasedSquaredPhaseLagIndex\<close> return without error a
  network that carries its name and has no node and no edge.
\<close>

theorem empty_input_empty_network:
  "phaseLagIndex sp [] matVert iNfft sWindowType =
     Inr \<lparr>networkName = ''Phase Lag Index'', nodes = [], edges = []\<rparr>
   \<and> unbiasedSquaredPhaseLagIndex sp [] matVert iNfft sWindowType =
     Inr \<lparr>networkName = ''Unbiased Squared Phase Lag Index'', nodes = [], edges = []\<rparr>"
  by (simp add: phaseLagIndex_def unbiasedSquaredPhaseLagIndex_def)

section \<open>C7: nodes and edges of the network\<close>

text \<open>
  C7. For a trial list the code accepts, with \<open>N\<close> channels, both wrappers return a
  network with the nodes \<open>0, ..., N - 1\<close> in this order and with \<open>N * N\<close> edges, one for
  every ordered pair of channels, self-pairs included, in row-major order: the
  reference channel \<open>i\<close> in the outer loop, the target channel \<open>j\<close> in the inner loop.
\<close>

theorem dense_network:
  assumes "wellFormed sp ds nfft w"
  shows "\<exists>net unet.
           phaseLagIndex sp ds mv nfft w = Inr net \<and>
           unbiasedSquaredPhaseLagIndex sp ds mv nfft w = Inr unet \<and>
           map nodeId (nodes net) = [0..<rows (hd ds)] \<and>
           map nodeId (nodes unet) = [0..<rows (hd ds)] \<and>
           map endpoints (edges net) =
             concat (map (\<lambda>i. map (\<lambda>j. (i, j)) [0..<rows (hd ds)]) [0..<rows (hd ds)]) \<and>
           map endpoints (edges unet) =
             concat (map (\<lambda>i. map (\<lambda>j. (i, j)) [0..<rows (hd ds)]) [0..<rows (hd ds)]) \<and>
           length (edges net) = rows (hd ds) * rows (hd ds) \<and>
           length (edges unet) = rows (hd ds) * rows (hd ds)"
proof -
  obtain pli where run: "computePLI sp ds nfft w = Inr pli"
    using assms by (simp add: computePLI_iff)
  show ?thesis
    unfolding phaseLagIndex_closed[OF run] unbiasedSquaredPhaseLagIndex_closed[OF run]
    by (simp add: assembled_nodeIds assembled_endpoints assembled_edge_count)
qed

theorem dense_network_witness:
  "wellFormed dft4Spectral [trialA, trialC] 4 ''ones'' \<and>
   (\<exists>net unet.
      phaseLagIndex dft4Spectral [trialA, trialC] [(1, 2, 3)] 4 ''ones'' = Inr net \<and>
      unbiasedSquaredPhaseLagIndex dft4Spectral [trialA, trialC] [(1, 2, 3)] 4 ''ones'' = Inr unet \<and>
      map nodeId (nodes net) = [0, 1] \<and>
      map nodeId (nodes unet) = [0, 1] \<and>
      map endpoints (edges net) = [(0, 0), (0, 1), (1, 0), (1, 1)] \<and>
      map endpoints (edges unet) = [(0, 0), (0, 1), (1, 0), (1, 1)] \<and>
      length (edges net) = 4 \<and> length (edges unet) = 4)"
  using dense_network[OF wf_AC, where w = "''ones''" and mv = "[(1, 2, 3)]"] wf_AC[of "''ones''"]
  by (simp add: window_AC upt2)

section \<open>C8: symmetry\<close>

text \<open>
  C8. When swapping the two spectra conjugates the result of the CSD combiner, the
  tensor \<open>computePLI\<close> returns is symmetric in the two channels:
  \<open>PLI(i, j, f) = PLI(j, i, f)\<close>.
\<close>

theorem computePLI_symmetric:
  assumes "wellFormed sp ds nfft w" and "csdConjugates sp"
  shows "\<exists>pli. computePLI sp ds nfft w = Inr pli \<and>
           (\<forall>i<rows (hd ds). \<forall>j<rows (hd ds). \<forall>f<nFreqs ds nfft.
              pli ! i ! j ! f = pli ! j ! i ! f)"
proof -
  let ?pli = "tensor (rows (hd ds)) (nFreqs ds nfft)
                (\<lambda>i k f. \<bar>signSum sp ds nfft w i k f\<bar> / real (length ds))"
  have run: "computePLI sp ds nfft w = Inr ?pli"
    using assms(1) by (simp add: computePLI_iff)
  have "?pli ! i ! j ! f = ?pli ! j ! i ! f"
    if "i < rows (hd ds)" "j < rows (hd ds)" "f < nFreqs ds nfft" for i j f
    using that signSum_swap[OF assms that] by (simp add: tensor_nth)
  then show ?thesis using run by blast
qed

theorem computePLI_symmetric_witness:
  "wellFormed dft4Spectral [trialA, trialC] 4 ''ones'' \<and> csdConjugates dft4Spectral \<and>
   (\<exists>pli. computePLI dft4Spectral [trialA, trialC] 4 ''ones'' = Inr pli \<and>
          pli ! 0 ! 1 ! 1 = pli ! 1 ! 0 ! 1)"
proof -
  let ?D = "[trialA, trialC]"
  from computePLI_symmetric[OF wf_AC csdConj_conjugates, of "''ones''"]
  obtain pli where run: "computePLI dft4Spectral ?D 4 ''ones'' = Inr pli"
    and val: "\<forall>i<rows (hd ?D). \<forall>j<rows (hd ?D). \<forall>f<nFreqs ?D 4.
                pli ! i ! j ! f = pli ! j ! i ! f"
    by blast
  have "pli ! 0 ! 1 ! 1 = pli ! 1 ! 0 ! 1"
    using val by (simp add: window_AC)
  then show ?thesis using run wf_AC csdConj_conjugates by blast
qed

section \<open>C9: range\<close>

text \<open>
  C9. Every entry \<open>PLI(i, j, f)\<close> of the tensor \<open>computePLI\<close> returns lies in the closed
  interval from 0 to 1.
\<close>

theorem computePLI_range:
  assumes "wellFormed sp ds nfft w"
  shows "\<exists>pli. computePLI sp ds nfft w = Inr pli \<and>
           (\<forall>i<rows (hd ds). \<forall>k<rows (hd ds). \<forall>f<nFreqs ds nfft.
              0 \<le> pli ! i ! k ! f \<and> pli ! i ! k ! f \<le> 1)"
proof -
  let ?pli = "tensor (rows (hd ds)) (nFreqs ds nfft)
                (\<lambda>i k f. \<bar>signSum sp ds nfft w i k f\<bar> / real (length ds))"
  have run: "computePLI sp ds nfft w = Inr ?pli"
    using assms by (simp add: computePLI_iff)
  have pos: "0 < real (length ds)"
    using wellFormed_nonempty[OF assms] by simp
  have "0 \<le> ?pli ! i ! k ! f \<and> ?pli ! i ! k ! f \<le> 1"
    if "i < rows (hd ds)" "k < rows (hd ds)" "f < nFreqs ds nfft" for i k f
    using that pos abs_signSum_le[of sp ds nfft w i k f] by (simp add: tensor_nth)
  then show ?thesis using run by blast
qed

theorem computePLI_range_witness:
  "wellFormed dft4Spectral [trialA, trialC] 4 ''ones'' \<and>
   (\<exists>pli. computePLI dft4Spectral [trialA, trialC] 4 ''ones'' = Inr pli \<and>
          0 \<le> pli ! 0 ! 1 ! 1 \<and> pli ! 0 ! 1 ! 1 \<le> 1)"
proof -
  let ?D = "[trialA, trialC]"
  from computePLI_range[OF wf_AC, of "''ones''"]
  obtain pli where run: "computePLI dft4Spectral ?D 4 ''ones'' = Inr pli"
    and val: "\<forall>i<rows (hd ?D). \<forall>k<rows (hd ?D). \<forall>f<nFreqs ?D 4.
                0 \<le> pli ! i ! k ! f \<and> pli ! i ! k ! f \<le> 1"
    by blast
  have "0 \<le> pli ! 0 ! 1 ! 1 \<and> pli ! 0 ! 1 ! 1 \<le> 1"
    using val by (simp add: window_AC)
  then show ?thesis using run wf_AC by blast
qed

section \<open>C10: the two networks have the same structure\<close>

text \<open>
  C10. On every input the results of \<open>phaseLagIndex\<close> and of
  \<open>unbiasedSquaredPhaseLagIndex\<close> agree up to the name of the network and the weights
  of the edges: both fail with the same error, or both return networks with the same
  nodes (index, position, end points of the edges appended to the node) and the same
  sequence of edge end points.
\<close>

theorem same_graph_structure:
  "map_sum id graphStructure (phaseLagIndex sp ds mv nfft w) =
   map_sum id graphStructure (unbiasedSquaredPhaseLagIndex sp ds mv nfft w)"
proof (cases "ds = []")
  case True
  then show ?thesis
    by (simp add: phaseLagIndex_def unbiasedSquaredPhaseLagIndex_def graphStructure_def)
next
  case False
  show ?thesis
  proof (cases "computePLI sp ds nfft w")
    case (Inl e)
    then show ?thesis
      using False computeUnbiased_Inl[OF Inl]
      by (simp add: phaseLagIndex_def unbiasedSquaredPhaseLagIndex_def Let_def)
  next
    case (Inr pli)
    show ?thesis
      unfolding phaseLagIndex_closed[OF Inr] unbiasedSquaredPhaseLagIndex_closed[OF Inr]
      by (simp add: assembled_structure)
  qed
qed

end
